theory Spec2Isabelle
  imports Main
begin

section \<open>Selection cuts of aict_tools/apply.py\<close>

text \<open>
  The theory embeds the cut engine of \<^verbatim>\<open>aict_tools/apply.py\<close>: the operator table,
  the two mask evaluators (\<^verbatim>\<open>create_mask_h5py\<close>, \<^verbatim>\<open>create_mask_table\<close>), the chunked
  copy \<^verbatim>\<open>apply_cuts_h5py_chunked\<close> and the cascade \<^verbatim>\<open>apply_cuts_cta_dl1\<close>.

  Cells of a column and the literal of a criterion are values of one linearly ordered
  type with a zero (the fill value of a grown HDF5 dataset); floating point NaN is
  outside this model. Every Python exception the code can raise is a constructor of
  \<open>error\<close>.
\<close>

subsection \<open>Errors\<close>

datatype error =
    MalformedEntry              \<comment> \<open>ValueError('Expected dict with single entry ...')\<close>
  | EmptyEntry                  \<comment> \<open>IndexError of \<^verbatim>\<open>list(c.items())[0]\<close> on an empty dict\<close>
  | UnknownOperator string      \<comment> \<open>KeyError of \<^verbatim>\<open>OPERATORS[operator]\<close>\<close>
  | UnknownColumn string        \<comment> \<open>KeyError of the column lookup\<close>
  | NegativeDimensions          \<comment> \<open>ValueError of \<^verbatim>\<open>np.ones\<close> on a negative length\<close>
  | ShapeError                  \<comment> \<open>ValueError: operands could not be broadcast together\<close>
  | MaskIndexError              \<comment> \<open>IndexError: boolean index of another length or of too high a rank\<close>
  | ScalarSliceError            \<comment> \<open>h5py: ValueError, a scalar dataset cannot be sliced\<close>
  | ZeroDivisionError           \<comment> \<open>\<^verbatim>\<open>n_events / chunksize\<close> with chunksize 0\<close>
  | MaxshapeError string        \<comment> \<open>h5py: the data exceed \<^verbatim>\<open>maxshape\<close> along an axis\<close>
  | NameExists string           \<comment> \<open>h5py: a dataset of that name already exists\<close>
  | MissingOutput string        \<comment> \<open>KeyError of \<^verbatim>\<open>group[name]\<close> in the output group\<close>
  | NoSuchNode string           \<comment> \<open>PyTables: the group is not in the file\<close>
  | NodeError string string     \<comment> \<open>PyTables: the output already has a node at that path\<close>
  | NoSuchField string          \<comment> \<open>KeyError of \<^verbatim>\<open>row[name]\<close>\<close>

subsection \<open>Operators\<close>

datatype opkind = Lt | Le | Eq | Ne | Gt | Ge

text \<open>The dict \<^verbatim>\<open>OPERATORS\<close>, entry by entry in the order of the source.\<close>

definition OPERATORS :: "(string \<times> opkind) list" where
  "OPERATORS =
    [(''<'', Lt), (''lt'', Lt),
     (''<='', Le), (''le'', Le),
     (''=='', Eq), (''eq'', Eq),
     (''='', Eq),
     (''!='', Ne), (''ne'', Ne),
     (''>'', Gt), (''gt'', Gt),
     (''>='', Ge), (''ge'', Ge)]"

text \<open>The functions \<^verbatim>\<open>lt, le, eq, ne, gt, ge\<close> of Python's \<^verbatim>\<open>operator\<close> module.\<close>

fun apply_operator :: "opkind \<Rightarrow> 'a::linorder \<Rightarrow> 'a \<Rightarrow> bool" where
  "apply_operator Lt a b = (a < b)"
| "apply_operator Le a b = (a \<le> b)"
| "apply_operator Eq a b = (a = b)"
| "apply_operator Ne a b = (a \<noteq> b)"
| "apply_operator Gt a b = (b < a)"
| "apply_operator Ge a b = (b \<le> a)"

subsection \<open>Selection configurations\<close>

text \<open>
  A group is a dict \<^verbatim>\<open>{column: [operator, value], ...}\<close>, kept as the list of its items.
  A configuration is a list of groups, or (legacy) one dict from column to
  \<^verbatim>\<open>[operator, value]\<close>.
\<close>

type_synonym 'a entry = "string \<times> string \<times> 'a"
type_synonym 'a group = "'a entry list"

datatype 'a selection_config = SelList "'a group list" | SelDict "'a entry list"

text \<open>\<^verbatim>\<open>[{k: v} for k, v in selection_config.items()]\<close> for the legacy form.\<close>

fun selection_groups :: "'a selection_config \<Rightarrow> 'a group list" where
  "selection_groups (SelList gs) = gs"
| "selection_groups (SelDict d) = map (\<lambda>kv. [kv]) d"

subsection \<open>Columns of an HDF5 group\<close>

text \<open>
  A dataset of rank 1 holds one cell per row; a dataset of rank 2 holds a row of \<open>d\<close>
  cells per row (\<open>D2 d rows\<close> has shape \<open>(length rows, d)\<close>); \<open>DN shp cells\<close> is a
  dataset of any other rank, with its shape (of length 0, 3, 4, ...) and its cells in
  row-major order. A group is the list of its items in iteration order.
\<close>

datatype 'a dataset = D1 "'a list" | D2 nat "'a list list" | DN "nat list" "'a list"

type_synonym 'a h5group = "(string \<times> 'a dataset) list"

fun nrows :: "'a dataset \<Rightarrow> nat" where
  "nrows (D1 xs) = length xs"
| "nrows (D2 d rows) = length rows"
| "nrows (DN shp cells) = (case shp of [] \<Rightarrow> 0 | n # rest \<Rightarrow> n)"

subsection \<open>numpy and h5py primitives\<close>

text \<open>\<^verbatim>\<open>xs[start:end]\<close> for non-negative bounds: clipped to the array, empty when \<open>end \<le> start\<close>.\<close>

definition slice :: "nat \<Rightarrow> nat \<Rightarrow> 'a list \<Rightarrow> 'a list" where
  "slice start end xs = take (end - start) (drop start xs)"

text \<open>
  \<^verbatim>\<open>np.logical_and\<close> on two arrays of rank 1: element by element on equal lengths, an
  array of length 1 is broadcast, other lengths do not broadcast.
\<close>

definition logical_and :: "bool list \<Rightarrow> bool list \<Rightarrow> error + bool list" where
  "logical_and msk selection =
    (if length msk = length selection then Inr (map2 (\<and>) msk selection)
     else if length selection = 1 then Inr (map (\<lambda>b. b \<and> hd selection) msk)
     else if length msk = 1 then Inr (map (\<lambda>b. hd msk \<and> b) selection)
     else Inl ShapeError)"

text \<open>
  A boolean array: the row mask of rank 1, or an array of rank 2 or more with its shape
  and its cells in row-major order.
\<close>

datatype mask = Mask1 "bool list" | MaskN "nat list" "bool list"

fun mask_shape :: "mask \<Rightarrow> nat list" where
  "mask_shape (Mask1 m) = [length m]"
| "mask_shape (MaskN shp cells) = shp"

text \<open>The indices of an array of a shape in row-major order, and the place of an index.\<close>

fun all_indices :: "nat list \<Rightarrow> nat list list" where
  "all_indices [] = [[]]"
| "all_indices (n # shp) = concat (map (\<lambda>i. map ((#) i) (all_indices shp)) [0..<n])"

fun offset :: "nat list \<Rightarrow> nat list \<Rightarrow> nat" where
  "offset (n # shp) (i # idx) = i * prod_list shp + offset shp idx"
| "offset shp idx = 0"

fun mask_at :: "mask \<Rightarrow> nat list \<Rightarrow> bool" where
  "mask_at (Mask1 m) idx = m ! offset [length m] idx"
| "mask_at (MaskN shp cells) idx = cells ! offset shp idx"

text \<open>
  numpy broadcasting: the shapes are aligned at their last axes; two extents agree when
  they are equal or one of them is 1; the shorter shape is extended at the front. An
  index of the result is projected to an operand by dropping the leading axes the
  operand lacks and reading position 0 along its axes of extent 1.
\<close>

fun broadcast_rev :: "nat list \<Rightarrow> nat list \<Rightarrow> nat list option" where
  "broadcast_rev [] ys = Some ys"
| "broadcast_rev xs [] = Some xs"
| "broadcast_rev (x # xs) (y # ys) =
    (if x = y \<or> y = 1 then map_option ((#) x) (broadcast_rev xs ys)
     else if x = 1 then map_option ((#) y) (broadcast_rev xs ys)
     else None)"

definition broadcast_shapes :: "nat list \<Rightarrow> nat list \<Rightarrow> nat list option" where
  "broadcast_shapes a b = map_option rev (broadcast_rev (rev a) (rev b))"

definition project :: "nat list \<Rightarrow> nat list \<Rightarrow> nat list" where
  "project shp idx =
    map2 (\<lambda>n i. if n = 1 then 0 else i) shp (drop (length idx - length shp) idx)"

text \<open>
  \<^verbatim>\<open>np.logical_and(mask, selection)\<close>: on two row masks the function above; as soon as
  one operand has rank 2 or more, so has the result.
\<close>

fun logical_and_masks :: "mask \<Rightarrow> mask \<Rightarrow> error + mask" where
  "logical_and_masks (Mask1 a) (Mask1 b) =
    (case logical_and a b of Inl err \<Rightarrow> Inl err | Inr m \<Rightarrow> Inr (Mask1 m))"
| "logical_and_masks a b =
    (case broadcast_shapes (mask_shape a) (mask_shape b) of
       None \<Rightarrow> Inl ShapeError
     | Some shp \<Rightarrow>
        Inr (MaskN shp
              (map (\<lambda>idx. mask_at a (project (mask_shape a) idx) \<and>
                          mask_at b (project (mask_shape b) idx))
                   (all_indices shp))))"

text \<open>\<^verbatim>\<open>np.count_nonzero(mask)\<close>.\<close>

fun count_nonzero :: "mask \<Rightarrow> nat" where
  "count_nonzero (Mask1 m) = length (filter id m)"
| "count_nonzero (MaskN shp cells) = length (filter id cells)"

text \<open>
  \<^verbatim>\<open>OPERATORS[operator](column[start:end], value)\<close>, the comparison of a column slice with
  the literal, cell by cell: a row mask on a column of rank 1, an array of the rank of
  the column otherwise. The slice takes the rows from \<open>start\<close> to \<open>end\<close> along the first
  axis; h5py refuses to slice a dataset of rank 0.
\<close>

fun compare_slice :: "opkind \<Rightarrow> 'a::linorder dataset \<Rightarrow> nat \<Rightarrow> nat \<Rightarrow> 'a \<Rightarrow> error + mask" where
  "compare_slice f (D1 xs) start end v =
    Inr (Mask1 (map (\<lambda>x. apply_operator f x v) (slice start end xs)))"
| "compare_slice f (D2 d rows) start end v =
    Inr (MaskN [length (slice start end rows), d]
          (map (\<lambda>x. apply_operator f x v) (concat (slice start end rows))))"
| "compare_slice f (DN [] cells) start end v = Inl ScalarSliceError"
| "compare_slice f (DN (n # shp) cells) start end v =
    Inr (MaskN ((min end n - min start n) # shp)
          (map (\<lambda>x. apply_operator f x v)
               (slice (start * prod_list shp) (end * prod_list shp) cells)))"

text \<open>
  \<^verbatim>\<open>xs[mask]\<close> and \<^verbatim>\<open>rows[mask, :]\<close>: a row mask must have the length of the indexed axis; a
  mask of rank 2 or more has too many indices for a column of rank 1, and with the
  slice also for a column of rank 2.
\<close>

fun masked :: "'b list \<Rightarrow> mask \<Rightarrow> error + 'b list" where
  "masked xs (Mask1 m) =
    (if length m = length xs then Inr (map fst (filter snd (zip xs m)))
     else Inl MaskIndexError)"
| "masked xs (MaskN shp cells) = Inl MaskIndexError"

subsection \<open>The mask evaluator on an HDF5 group\<close>

text \<open>\<^verbatim>\<open>start = start or 0\<close> and \<^verbatim>\<open>end = min(n_events, end) if end else n_events\<close>.\<close>

definition mask_start :: "nat option \<Rightarrow> nat" where
  "mask_start start = (case start of None \<Rightarrow> 0 | Some s \<Rightarrow> s)"

definition mask_end :: "nat \<Rightarrow> nat option \<Rightarrow> nat" where
  "mask_end n_events end =
    (case end of None \<Rightarrow> n_events
     | Some e \<Rightarrow> if e = 0 then n_events else min n_events e)"

text \<open>
  The loop \<^verbatim>\<open>for c in selection_config\<close> of \<^verbatim>\<open>create_mask_h5py\<close>, with the running
  mask as accumulator. \<open>table\<close> is \<^verbatim>\<open>infile[key]\<close>.
\<close>

fun mask_loop_h5py ::
  "'a::linorder h5group \<Rightarrow> nat \<Rightarrow> nat \<Rightarrow> 'a group list \<Rightarrow> mask \<Rightarrow> error + mask" where
  "mask_loop_h5py table start end [] msk = Inr msk"
| "mask_loop_h5py table start end (c # cs) msk =
    (if length c > 1 then Inl MalformedEntry
     else case c of
       [] \<Rightarrow> Inl EmptyEntry
     | (name, operator, v) # _ \<Rightarrow>
        (case map_of OPERATORS operator of
           None \<Rightarrow> Inl (UnknownOperator operator)
         | Some f \<Rightarrow>
            (case map_of table name of
               None \<Rightarrow> Inl (UnknownColumn name)
             | Some column \<Rightarrow>
                (case compare_slice f column start end v of
                   Inl err \<Rightarrow> Inl err
                 | Inr selection \<Rightarrow>
                    (case logical_and_masks msk selection of
                       Inl err \<Rightarrow> Inl err
                     | Inr msk' \<Rightarrow> mask_loop_h5py table start end cs msk')))))"

definition create_mask_h5py ::
  "'a::linorder h5group \<Rightarrow> 'a selection_config \<Rightarrow> nat \<Rightarrow> nat option \<Rightarrow> nat option
    \<Rightarrow> error + mask" where
  "create_mask_h5py table selection_config n_events start end =
    (let s = mask_start start; e = mask_end n_events end in
     if e < s then Inl NegativeDimensions
     else mask_loop_h5py table s e (selection_groups selection_config)
            (Mask1 (replicate (e - s) True)))"

subsection \<open>The chunked filtered copy\<close>

text \<open>The shape of a dataset.\<close>

fun shape :: "'a dataset \<Rightarrow> nat list" where
  "shape (D1 xs) = [length xs]"
| "shape (D2 d rows) = [length rows, d]"
| "shape (DN shp cells) = shp"

text \<open>
  HDF5 accepts a dataspace only if, along every axis, the current extent does not
  exceed the maximal one; \<open>None\<close> is an unlimited axis. Shape and \<^verbatim>\<open>maxshape\<close> must have
  the same rank.
\<close>

definition fits_maxshape :: "nat list \<Rightarrow> nat option list \<Rightarrow> bool" where
  "fits_maxshape shp maxshape =
    list_all2 (\<lambda>n m. case m of None \<Rightarrow> True | Some k \<Rightarrow> n \<le> k) shp maxshape"

text \<open>\<^verbatim>\<open>group.create_dataset(name, data=data, maxshape=maxshape)\<close> on the output group.\<close>

definition create_dataset ::
  "'a h5group \<Rightarrow> string \<Rightarrow> 'a dataset \<Rightarrow> nat option list \<Rightarrow> error + 'a h5group" where
  "create_dataset grp name data maxshape =
    (if \<not> fits_maxshape (shape data) maxshape then Inl (MaxshapeError name)
     else case map_of grp name of
       Some _ \<Rightarrow> Inl (NameExists name)
     | None \<Rightarrow> Inr (grp @ [(name, data)]))"

text \<open>
  \<^verbatim>\<open>group[name].resize(n_old + n_new, axis=0)\<close> with \<open>n_old\<close> the current row count: the
  dataset grows by \<open>n_new\<close> rows of the fill value. The copy creates datasets of rank 1
  and 2 only, so the output group holds no other.
\<close>

fun resize :: "'a::zero dataset \<Rightarrow> nat \<Rightarrow> 'a dataset" where
  "resize (D1 ys) n_new = D1 (ys @ replicate n_new 0)"
| "resize (D2 d rows) n_new = D2 d (rows @ replicate n_new (replicate d 0))"
| "resize (DN shp cells) n_new = DN shp cells"

text \<open>
  \<^verbatim>\<open>group[name][n_old:n_old + n_new] = data\<close>: the rows from \<open>n_old\<close> on are overwritten
  by the data. A write of data of another rank or row width than the dataset's is
  \<open>ShapeError\<close>; the copy, which starts from an empty group, never does one.
\<close>

definition overwrite :: "nat \<Rightarrow> 'b list \<Rightarrow> 'b list \<Rightarrow> 'b list" where
  "overwrite n_old data ys = take n_old ys @ data @ drop (n_old + length data) ys"

fun write_rows :: "'a dataset \<Rightarrow> nat \<Rightarrow> 'a dataset \<Rightarrow> error + 'a dataset" where
  "write_rows (D1 ys) n_old (D1 data) = Inr (D1 (overwrite n_old data ys))"
| "write_rows (D2 d rows) n_old (D2 d' data) =
    (if d = d' then Inr (D2 d (overwrite n_old data rows)) else Inl ShapeError)"
| "write_rows _ n_old _ = Inl ShapeError"

text \<open>The dataset that \<^verbatim>\<open>group[name]\<close> denotes is replaced by its new state.\<close>

fun set_dataset :: "'a h5group \<Rightarrow> string \<Rightarrow> 'a dataset \<Rightarrow> 'a h5group" where
  "set_dataset [] name ds = []"
| "set_dataset ((k, old) # grp) name ds =
    (if k = name then (k, ds) # grp else (k, old) # set_dataset grp name ds)"

text \<open>
  The loop \<^verbatim>\<open>for name, dataset in infile[key].items()\<close> for one chunk. It returns the
  exception that ended it, if any, and the output group as it is then.
\<close>

fun write_columns ::
  "nat \<Rightarrow> nat \<Rightarrow> nat \<Rightarrow> mask \<Rightarrow> 'a::zero h5group \<Rightarrow> 'a h5group
    \<Rightarrow> error option \<times> 'a h5group" where
  "write_columns chunk start end msk [] grp = (None, grp)"
| "write_columns chunk start end msk ((name, dataset) # rest) grp =
    (if chunk = 0 then
       (case dataset of
          D1 xs \<Rightarrow>
            (case masked (slice start end xs) msk of
               Inl err \<Rightarrow> (Some err, grp)
             | Inr data \<Rightarrow>
                (case create_dataset grp name (D1 data) [None] of
                   Inl err \<Rightarrow> (Some err, grp)
                 | Inr grp' \<Rightarrow> write_columns chunk start end msk rest grp'))
        | D2 d rows \<Rightarrow>
            (case masked (slice start end rows) msk of
               Inl err \<Rightarrow> (Some err, grp)
             | Inr data \<Rightarrow>
                (case create_dataset grp name (D2 d data) [None, Some 2] of
                   Inl err \<Rightarrow> (Some err, grp)
                 | Inr grp' \<Rightarrow> write_columns chunk start end msk rest grp'))
        | DN shp cells \<Rightarrow> write_columns chunk start end msk rest grp)
     else
       (case map_of grp name of
          None \<Rightarrow> (Some (MissingOutput name), grp)
        | Some old \<Rightarrow>
           (let n_old = nrows old;
                n_new = count_nonzero msk;
                resized = resize old n_new;
                grp1 = set_dataset grp name resized
            in case dataset of
                 D1 xs \<Rightarrow>
                   (case masked (slice start end xs) msk of
                      Inl err \<Rightarrow> (Some err, grp1)
                    | Inr data \<Rightarrow>
                       (case write_rows resized n_old (D1 data) of
                          Inl err \<Rightarrow> (Some err, grp1)
                        | Inr new \<Rightarrow>
                            write_columns chunk start end msk rest (set_dataset grp1 name new)))
               | D2 d rows \<Rightarrow>
                   (case masked (slice start end rows) msk of
                      Inl err \<Rightarrow> (Some err, grp1)
                    | Inr data \<Rightarrow>
                       (case write_rows resized n_old (D2 d data) of
                          Inl err \<Rightarrow> (Some err, grp1)
                        | Inr new \<Rightarrow>
                            write_columns chunk start end msk rest (set_dataset grp1 name new)))
               | DN shp cells \<Rightarrow> write_columns chunk start end msk rest grp1)))"

text \<open>The loop \<^verbatim>\<open>for chunk in range(n_chunks)\<close>, over the list of chunk numbers.\<close>

fun chunk_loop ::
  "'a::{linorder,zero} h5group \<Rightarrow> 'a selection_config \<Rightarrow> nat \<Rightarrow> nat \<Rightarrow> nat list
    \<Rightarrow> 'a h5group \<Rightarrow> error option \<times> 'a h5group" where
  "chunk_loop table selection_config n_events chunksize [] grp = (None, grp)"
| "chunk_loop table selection_config n_events chunksize (chunk # chunks) grp =
    (let start = chunk * chunksize;
         end = min n_events ((chunk + 1) * chunksize)
     in case create_mask_h5py table selection_config n_events (Some start) (Some end) of
          Inl err \<Rightarrow> (Some err, grp)
        | Inr msk \<Rightarrow>
           (case write_columns chunk start end msk table grp of
              (Some err, grp') \<Rightarrow> (Some err, grp')
            | (None, grp') \<Rightarrow>
                chunk_loop table selection_config n_events chunksize chunks grp'))"

text \<open>
  \<^verbatim>\<open>apply_cuts_h5py_chunked\<close>. \<open>table\<close> is the group \<^verbatim>\<open>infile[key]\<close> and \<open>n_events\<close> the
  number that \<^verbatim>\<open>get_number_of_rows_in_table\<close> returns for it (a function of
  \<^verbatim>\<open>aict_tools.io\<close>). \<^verbatim>\<open>int(np.ceil(n_events / chunksize))\<close> is the rounded-up quotient.
  The result is the exception raised, if any, and the output file at the end:
  \<open>None\<close> while it has not been opened, else the content of its group \<^verbatim>\<open>key\<close>, which
  opening with mode \<^verbatim>\<open>'w'\<close> and \<^verbatim>\<open>create_group\<close> leave empty.
\<close>

definition apply_cuts_h5py_chunked ::
  "'a::{linorder,zero} h5group \<Rightarrow> nat \<Rightarrow> 'a selection_config \<Rightarrow> nat
    \<Rightarrow> error option \<times> 'a h5group option" where
  "apply_cuts_h5py_chunked table n_events selection_config chunksize =
    (if chunksize = 0 then (Some ZeroDivisionError, None)
     else
       let n_chunks = (n_events + chunksize - 1) div chunksize
       in case chunk_loop table selection_config n_events chunksize [0..<n_chunks] [] of
            (err, grp) \<Rightarrow> (err, Some grp))"

subsection \<open>PyTables tables and the mask evaluator on them\<close>

text \<open>
  A table has a name, the path of its parent group, its description (the column
  names) and its rows; a row is the record of its fields, kept as the list of
  (column, cell) pairs. Cells are scalars.
\<close>

type_synonym 'a row = "(string \<times> 'a) list"

record 'a table =
  t_name :: string
  t_parent :: string
  colnames :: "string list"
  t_rows :: "'a row list"

text \<open>\<^verbatim>\<open>row[name]\<close>.\<close>

definition row_get :: "'a row \<Rightarrow> string \<Rightarrow> error + 'a" where
  "row_get row name = (case map_of row name of None \<Rightarrow> Inl (NoSuchField name) | Some v \<Rightarrow> Inr v)"

text \<open>\<^verbatim>\<open>table.col(name)\<close>: the cells of one column, row by row.\<close>

fun col :: "'a row list \<Rightarrow> string \<Rightarrow> error + 'a list" where
  "col [] name = Inr []"
| "col (row # rows) name =
    (case row_get row name of
       Inl err \<Rightarrow> Inl err
     | Inr v \<Rightarrow> (case col rows name of Inl err \<Rightarrow> Inl err | Inr vs \<Rightarrow> Inr (v # vs)))"

text \<open>The loop \<^verbatim>\<open>for c in selection_config\<close> of \<^verbatim>\<open>create_mask_table\<close>.\<close>

fun mask_loop_table ::
  "'a::linorder table \<Rightarrow> nat \<Rightarrow> nat \<Rightarrow> 'a group list \<Rightarrow> bool list \<Rightarrow> error + bool list" where
  "mask_loop_table table start end [] msk = Inr msk"
| "mask_loop_table table start end (c # cs) msk =
    (if length c > 1 then Inl MalformedEntry
     else case c of
       [] \<Rightarrow> Inl EmptyEntry
     | (name, operator, v) # _ \<Rightarrow>
        (if name \<notin> set (colnames table) then Inl (UnknownColumn name)
         else case map_of OPERATORS operator of
           None \<Rightarrow> Inl (UnknownOperator operator)
         | Some f \<Rightarrow>
            (case col (t_rows table) name of
               Inl err \<Rightarrow> Inl err
             | Inr column \<Rightarrow>
                (case logical_and msk
                        (map (\<lambda>x. apply_operator f x v) (slice start end column)) of
                   Inl err \<Rightarrow> Inl err
                 | Inr msk' \<Rightarrow> mask_loop_table table start end cs msk'))))"

definition create_mask_table ::
  "'a::linorder table \<Rightarrow> 'a selection_config \<Rightarrow> nat \<Rightarrow> nat option \<Rightarrow> nat option
    \<Rightarrow> error + bool list" where
  "create_mask_table table selection_config n_events start end =
    (let s = mask_start start; e = mask_end n_events end in
     if e < s then Inl NegativeDimensions
     else mask_loop_table table s e (selection_groups selection_config)
            (replicate (e - s) True))"

subsection \<open>The cascade filter\<close>

text \<open>
  The input file is the list of its nodes in the order of \<^verbatim>\<open>walk_nodes\<close>: tables, and
  nodes that are no tables, of which only the path matters. The children of the
  parameters group are the tables whose parent has that path (the group holds tables
  only). The output file is the list of its tables.
\<close>

datatype 'a node = GroupNode string | TableNode "'a table"

definition parameters_key :: string where
  "parameters_key = ''/dl1/event/telescope/parameters''"

definition parameter_tables :: "'a node list \<Rightarrow> 'a table list" where
  "parameter_tables in_nodes =
    concat (map (\<lambda>n. case n of GroupNode p \<Rightarrow> []
                        | TableNode t \<Rightarrow> if t_parent t = parameters_key then [t] else [])
                in_nodes)"

text \<open>
  \<^verbatim>\<open>out_.create_table(where, name, description, createparents=True)\<close>: refused when the
  output already has a node of that name there, else a table without rows.
\<close>

definition create_table ::
  "'a table list \<Rightarrow> string \<Rightarrow> string \<Rightarrow> string list \<Rightarrow> error + 'a table" where
  "create_table out_tables path name description =
    (if list_ex (\<lambda>t. t_parent t = path \<and> t_name t = name) out_tables
     then Inl (NodeError path name)
     else Inr \<lparr>t_name = name, t_parent = path, colnames = description, t_rows = []\<rparr>)"

text \<open>
  The loop \<^verbatim>\<open>for row, match in zip(table.iterrows(), mask)\<close> of the first phase. The
  state is the new table, \<^verbatim>\<open>remaining_showers\<close>, \<^verbatim>\<open>n_rows_before\<close> and \<^verbatim>\<open>n_rows_after\<close>.
\<close>

type_synonym 'a phase1 = "'a table \<times> ('a \<times> 'a) set \<times> nat \<times> nat"

fun parameter_rows :: "('a row \<times> bool) list \<Rightarrow> 'a phase1 \<Rightarrow> error + 'a phase1" where
  "parameter_rows [] st = Inr st"
| "parameter_rows ((row, match) # rest) (new_table, remaining_showers, n_before, n_after) =
    (if match then
       (case row_get row ''obs_id'' of
          Inl err \<Rightarrow> Inl err
        | Inr obs_id \<Rightarrow>
           (case row_get row ''event_id'' of
              Inl err \<Rightarrow> Inl err
            | Inr event_id \<Rightarrow>
                parameter_rows rest
                  (new_table\<lparr>t_rows := t_rows new_table @ [row]\<rparr>,
                   insert (obs_id, event_id) remaining_showers,
                   n_before + 1, n_after + 1)))
     else parameter_rows rest (new_table, remaining_showers, n_before + 1, n_after))"

text \<open>The loop over the parameter tables; the state also holds the output file.\<close>

fun parameter_loop ::
  "'a::linorder table list \<Rightarrow> 'a selection_config
    \<Rightarrow> 'a table list \<times> ('a \<times> 'a) set \<times> nat \<times> nat
    \<Rightarrow> error + 'a table list \<times> ('a \<times> 'a) set \<times> nat \<times> nat" where
  "parameter_loop [] selection_config st = Inr st"
| "parameter_loop (table # rest) selection_config (out_tables, remaining_showers, n_before, n_after) =
    (case create_table out_tables parameters_key (t_name table) (colnames table) of
       Inl err \<Rightarrow> Inl err
     | Inr new_table \<Rightarrow>
        (case create_mask_table table selection_config (length (t_rows table)) None None of
           Inl err \<Rightarrow> Inl err
         | Inr msk \<Rightarrow>
            (case parameter_rows (zip (t_rows table) msk)
                    (new_table, remaining_showers, n_before, n_after) of
               Inl err \<Rightarrow> Inl err
             | Inr (new_table', remaining', n_before', n_after') \<Rightarrow>
                 parameter_loop rest selection_config
                   (out_tables @ [new_table'], remaining', n_before', n_after'))))"

text \<open>The loop \<^verbatim>\<open>for row in table.iterrows()\<close> of the second phase: the rows appended.\<close>

fun dependent_rows ::
  "string list \<Rightarrow> ('a \<times> 'a) set \<Rightarrow> 'a row list \<Rightarrow> error + 'a row list" where
  "dependent_rows names remaining_showers [] = Inr []"
| "dependent_rows names remaining_showers (row # rest) =
    (if ''event_id'' \<in> set names then
       (case row_get row ''obs_id'' of
          Inl err \<Rightarrow> Inl err
        | Inr obs_id \<Rightarrow>
           (case row_get row ''event_id'' of
              Inl err \<Rightarrow> Inl err
            | Inr event_id \<Rightarrow>
               (if (obs_id, event_id) \<notin> remaining_showers
                then dependent_rows names remaining_showers rest
                else (case dependent_rows names remaining_showers rest of
                        Inl err \<Rightarrow> Inl err
                      | Inr kept \<Rightarrow> Inr (row # kept)))))
     else (case dependent_rows names remaining_showers rest of
             Inl err \<Rightarrow> Inl err
           | Inr kept \<Rightarrow> Inr (row # kept)))"

text \<open>The loop \<^verbatim>\<open>for table in in_.walk_nodes()\<close>.\<close>

fun dependent_loop ::
  "'a node list \<Rightarrow> ('a \<times> 'a) set \<Rightarrow> 'a table list \<Rightarrow> error + 'a table list" where
  "dependent_loop [] remaining_showers out_tables = Inr out_tables"
| "dependent_loop (GroupNode p # rest) remaining_showers out_tables =
    dependent_loop rest remaining_showers out_tables"
| "dependent_loop (TableNode table # rest) remaining_showers out_tables =
    (if t_parent table = parameters_key then dependent_loop rest remaining_showers out_tables
     else
       (case create_table out_tables (t_parent table) (t_name table) (colnames table) of
          Inl err \<Rightarrow> Inl err
        | Inr new_table \<Rightarrow>
           (case dependent_rows (colnames table) remaining_showers (t_rows table) of
              Inl err \<Rightarrow> Inl err
            | Inr kept \<Rightarrow>
                dependent_loop rest remaining_showers
                  (out_tables @ [new_table\<lparr>t_rows := kept\<rparr>]))))"

text \<open>
  \<^verbatim>\<open>apply_cuts_cta_dl1\<close>: \<open>in_nodes\<close> is the input file, \<open>out_tables\<close> what the output file
  holds when it is opened (mode \<^verbatim>\<open>'a'\<close>). The result is the output file with
  \<^verbatim>\<open>(n_rows_before, n_rows_after)\<close>, or the exception raised.
\<close>

definition apply_cuts_cta_dl1 ::
  "'a::linorder node list \<Rightarrow> 'a table list \<Rightarrow> 'a selection_config
    \<Rightarrow> error + 'a table list \<times> nat \<times> nat" where
  "apply_cuts_cta_dl1 in_nodes out_tables selection_config =
    (if GroupNode parameters_key \<notin> set in_nodes then Inl (NoSuchNode parameters_key)
     else
       (case parameter_loop (parameter_tables in_nodes) selection_config (out_tables, {}, 0, 0) of
          Inl err \<Rightarrow> Inl err
        | Inr (out1, remaining_showers, n_rows_before, n_rows_after) \<Rightarrow>
           (case dependent_loop in_nodes remaining_showers out1 of
              Inl err \<Rightarrow> Inl err
            | Inr out2 \<Rightarrow> Inr (out2, n_rows_before, n_rows_after))))"

section \<open>Notions of the specification\<close>

subsection \<open>Criteria, row by row\<close>

text \<open>
  A criterion is well formed on a group of \<open>n_events\<close> rows when it is one entry, its
  operator is a key of \<^verbatim>\<open>OPERATORS\<close>, and its column is a rank-1 dataset of the group
  with that many rows. It evaluates true for a row when the operator holds between the
  cell of the row and the literal.
\<close>

fun well_formed_criterion :: "'a h5group \<Rightarrow> nat \<Rightarrow> 'a group \<Rightarrow> bool" where
  "well_formed_criterion table n_events [(name, operator, v)] =
    (map_of OPERATORS operator \<noteq> None \<and>
     (case map_of table name of Some (D1 xs) \<Rightarrow> length xs = n_events | _ \<Rightarrow> False))"
| "well_formed_criterion table n_events c = False"

fun criterion_true :: "'a::linorder h5group \<Rightarrow> 'a group \<Rightarrow> nat \<Rightarrow> bool" where
  "criterion_true table [(name, operator, v)] i =
    (case (map_of OPERATORS operator, map_of table name) of
       (Some f, Some (D1 xs)) \<Rightarrow> apply_operator f (xs ! i) v
     | _ \<Rightarrow> False)"
| "criterion_true table c i = False"

text \<open>The same for a PyTables table, every row of which has the fields of the description.\<close>

definition table_ok :: "'a table \<Rightarrow> bool" where
  "table_ok table = list_all (\<lambda>row. map fst row = colnames table) (t_rows table)"

fun well_formed_criterion_table :: "'a table \<Rightarrow> 'a group \<Rightarrow> bool" where
  "well_formed_criterion_table table [(name, operator, v)] =
    (map_of OPERATORS operator \<noteq> None \<and> name \<in> set (colnames table))"
| "well_formed_criterion_table table c = False"

fun criterion_true_table :: "'a::linorder table \<Rightarrow> 'a group \<Rightarrow> nat \<Rightarrow> bool" where
  "criterion_true_table table [(name, operator, v)] i =
    (case (map_of OPERATORS operator, map_of (t_rows table ! i) name) of
       (Some f, Some x) \<Rightarrow> apply_operator f x v
     | _ \<Rightarrow> False)"
| "criterion_true_table table c i = False"

subsection \<open>Schema of a group\<close>

text \<open>
  The schema of a group lists its columns with their rank, and for rank 2 the fixed
  second dimension. The cell type is the type parameter of the group.
\<close>

datatype column_kind = Rank1 | Rank2 nat | RankOther

fun kind_of :: "'a dataset \<Rightarrow> column_kind" where
  "kind_of (D1 xs) = Rank1"
| "kind_of (D2 d rows) = Rank2 d"
| "kind_of (DN shp cells) = RankOther"

definition schema :: "'a h5group \<Rightarrow> (string \<times> column_kind) list" where
  "schema grp = map (\<lambda>(name, ds). (name, kind_of ds)) grp"

text \<open>A group is a table of \<open>n\<close> rows when its columns of rank 1 and 2 have \<open>n\<close> rows.\<close>

definition table_rows :: "nat \<Rightarrow> 'a h5group \<Rightarrow> bool" where
  "table_rows n table =
    list_all (\<lambda>(name, ds). kind_of ds = RankOther \<or> nrows ds = n) table"

subsection \<open>Survivor keys\<close>

text \<open>
  The key of a row is the pair of its fields \<^verbatim>\<open>obs_id\<close> and \<^verbatim>\<open>event_id\<close>. The survivor
  keys are the keys of the rows of the parameter tables that pass the selection.
\<close>

definition row_key :: "'a row \<Rightarrow> ('a \<times> 'a) option" where
  "row_key row =
    (case (map_of row ''obs_id'', map_of row ''event_id'') of
       (Some obs_id, Some event_id) \<Rightarrow> Some (obs_id, event_id)
     | _ \<Rightarrow> None)"

definition has_key_columns :: "'a table \<Rightarrow> bool" where
  "has_key_columns table =
    (''obs_id'' \<in> set (colnames table) \<and> ''event_id'' \<in> set (colnames table))"

definition passes_selection :: "'a::linorder table \<Rightarrow> 'a selection_config \<Rightarrow> nat \<Rightarrow> bool" where
  "passes_selection table selection_config i =
    list_all (\<lambda>c. criterion_true_table table c i) (selection_groups selection_config)"

definition passing_keys :: "'a::linorder table \<Rightarrow> 'a selection_config \<Rightarrow> ('a \<times> 'a) list" where
  "passing_keys table selection_config =
    concat (map (\<lambda>i. if passes_selection table selection_config i
                      then (case row_key (t_rows table ! i) of Some k \<Rightarrow> [k] | None \<Rightarrow> [])
                      else [])
                [0..<length (t_rows table)])"

definition survivor_keys :: "'a::linorder node list \<Rightarrow> 'a selection_config \<Rightarrow> ('a \<times> 'a) set" where
  "survivor_keys in_nodes selection_config =
    set (concat (map (\<lambda>t. passing_keys t selection_config) (parameter_tables in_nodes)))"

definition key_survives :: "('a \<times> 'a) set \<Rightarrow> 'a row \<Rightarrow> bool" where
  "key_survives survivors row = (case row_key row of Some k \<Rightarrow> k \<in> survivors | None \<Rightarrow> False)"

subsection \<open>The filtered table\<close>

text \<open>
  A row passes the selection when every criterion evaluates true for it. The filtered
  column holds the cells of the passing rows below \<open>n\<close>, in their order. The columns of
  a table can be created one after the other, in a group that has the datasets
  \<open>names\<close>, when no name is taken twice and no rank-2 column is wider than
  \<^verbatim>\<open>maxshape\<close> allows.
\<close>

definition passing :: "'a::linorder h5group \<Rightarrow> 'a selection_config \<Rightarrow> nat \<Rightarrow> bool" where
  "passing table selection_config i =
    list_all (\<lambda>c. criterion_true table c i) (selection_groups selection_config)"

fun filtered_column :: "(nat \<Rightarrow> bool) \<Rightarrow> nat \<Rightarrow> 'a dataset \<Rightarrow> 'a dataset" where
  "filtered_column P n (D1 xs) = D1 (map ((!) xs) (filter P [0..<n]))"
| "filtered_column P n (D2 d rows) = D2 d (map ((!) rows) (filter P [0..<n]))"
| "filtered_column P n (DN shp cells) = DN shp cells"

definition filtered_table :: "(nat \<Rightarrow> bool) \<Rightarrow> nat \<Rightarrow> 'a h5group \<Rightarrow> 'a h5group" where
  "filtered_table P n table = map (\<lambda>(name, ds). (name, filtered_column P n ds)) table"

fun creatable :: "string list \<Rightarrow> 'a h5group \<Rightarrow> bool" where
  "creatable names [] = True"
| "creatable names ((name, ds) # rest) =
    (name \<notin> set names \<and> (case ds of D2 d rows \<Rightarrow> d \<le> 2 | _ \<Rightarrow> True) \<and>
     creatable (names @ [name]) rest)"

definition supported_ranks :: "'a h5group \<Rightarrow> bool" where
  "supported_ranks table = list_all (\<lambda>(name, ds). kind_of ds \<noteq> RankOther) table"

subsection \<open>Input files that the cascade handles\<close>

text \<open>
  The tables of a file, and those outside the parameters group. A file is ready for the
  cascade when it has the parameters group, no two tables share a path, every row has
  the fields of its table, the parameter tables have both key columns and every
  criterion names one of their columns with a known operator, and every other table has
  both key columns or no column \<^verbatim>\<open>event_id\<close>.
\<close>

definition input_tables :: "'a node list \<Rightarrow> 'a table list" where
  "input_tables in_nodes =
    concat (map (\<lambda>n. case n of GroupNode p \<Rightarrow> [] | TableNode t \<Rightarrow> [t]) in_nodes)"

definition path_names :: "'a table list \<Rightarrow> (string \<times> string) list" where
  "path_names ts = map (\<lambda>t. (t_parent t, t_name t)) ts"

definition dependent_tables :: "'a node list \<Rightarrow> 'a table list" where
  "dependent_tables in_nodes = filter (\<lambda>t. t_parent t \<noteq> parameters_key) (input_tables in_nodes)"

definition cascade_ready :: "'a node list \<Rightarrow> 'a selection_config \<Rightarrow> bool" where
  "cascade_ready in_nodes selection_config =
    (GroupNode parameters_key \<in> set in_nodes \<and>
     distinct (path_names (input_tables in_nodes)) \<and>
     list_all table_ok (input_tables in_nodes) \<and>
     list_all (\<lambda>t. has_key_columns t \<and>
                 list_all (well_formed_criterion_table t) (selection_groups selection_config))
       (parameter_tables in_nodes) \<and>
     list_all (\<lambda>t. has_key_columns t \<or> ''event_id'' \<notin> set (colnames t))
       (dependent_tables in_nodes))"

section \<open>Properties of the mask evaluators\<close>

lemma slice_nth:
  "start \<le> end \<Longrightarrow> end \<le> length xs \<Longrightarrow> slice start end xs = map ((!) xs) [start..<end]"
  unfolding slice_def by (auto simp: list_eq_iff_nth_eq)

lemma logical_and_same:
  "length m = length sel \<Longrightarrow> logical_and m sel = Inr (map2 (\<and>) m sel)"
  by (simp add: logical_and_def)

lemma map2_and_True: "length m = length is \<Longrightarrow> map2 (\<and>) m (map (\<lambda>i. True) is) = m"
  by (auto simp: list_eq_iff_nth_eq)

lemma well_formed_criterionE:
  assumes "well_formed_criterion table n c"
  obtains name operator v f xs where "c = [(name, operator, v)]"
    "map_of OPERATORS operator = Some f" "map_of table name = Some (D1 xs)" "length xs = n"
  using assms
  by (cases "(table, n, c)" rule: well_formed_criterion.cases)
     (auto split: option.splits dataset.splits)

lemma mask_loop_h5py_ok:
  assumes "\<forall>c \<in> set cs. well_formed_criterion table n c" "start \<le> end" "end \<le> n"
    "length m = end - start"
  shows "mask_loop_h5py table start end cs (Mask1 m) =
    Inr (Mask1 (map2 (\<and>) m (map (\<lambda>i. \<forall>c \<in> set cs. criterion_true table c i) [start..<end])))"
  using assms
proof (induction cs arbitrary: m)
  case Nil
  then show ?case by (simp add: map2_and_True)
next
  case (Cons c cs)
  from Cons.prems(1) have "well_formed_criterion table n c" by simp
  then obtain name operator v f xs where c: "c = [(name, operator, v)]"
    and f: "map_of OPERATORS operator = Some f"
    and xs: "map_of table name = Some (D1 xs)" "length xs = n"
    by (rule well_formed_criterionE)
  let ?sel = "map (\<lambda>x. apply_operator f x v) (slice start end xs)"
  have sl: "slice start end xs = map ((!) xs) [start..<end]"
    using Cons.prems xs by (intro slice_nth) auto
  have len: "length m = length ?sel" using Cons.prems sl by simp
  let ?m' = "map2 (\<and>) m ?sel"
  have step: "mask_loop_h5py table start end (c # cs) (Mask1 m) =
      mask_loop_h5py table start end cs (Mask1 ?m')"
    using c f xs by (simp add: logical_and_same[OF len])
  have len': "length ?m' = end - start" using len Cons.prems by simp
  have IH: "mask_loop_h5py table start end cs (Mask1 ?m') =
    Inr (Mask1 (map2 (\<and>) ?m'
          (map (\<lambda>i. \<forall>c \<in> set cs. criterion_true table c i) [start..<end])))"
    using Cons.IH[OF _ Cons.prems(2,3) len'] Cons.prems(1) by simp
  have ct: "\<And>i. criterion_true table c i = apply_operator f (xs ! i) v"
    using c f xs by simp
  have "map2 (\<and>) ?m' (map (\<lambda>i. \<forall>c \<in> set cs. criterion_true table c i) [start..<end]) =
      map2 (\<and>) m (map (\<lambda>i. \<forall>c \<in> set (c # cs). criterion_true table c i) [start..<end])"
    using Cons.prems(4) by (auto simp: list_eq_iff_nth_eq ct sl)
  with step IH show ?case by simp
qed

lemma mask_loop_h5py_append:
  "mask_loop_h5py table start end (pre @ rest) m =
    (case mask_loop_h5py table start end pre m of
       Inl err \<Rightarrow> Inl err
     | Inr m' \<Rightarrow> mask_loop_h5py table start end rest m')"
  by (induction pre arbitrary: m)
     (auto split: list.splits option.splits sum.splits prod.splits)

lemma mask_bounds_chunk:
  "0 < end \<Longrightarrow> end \<le> n \<Longrightarrow> mask_start (Some start) = start \<and> mask_end n (Some end) = end"
  by (simp add: mask_start_def mask_end_def)

lemma create_mask_h5py_ok:
  assumes "\<forall>c \<in> set (selection_groups cfg). well_formed_criterion table n c"
    "start \<le> end" "end \<le> n" "0 < end"
  shows "create_mask_h5py table cfg n (Some start) (Some end) =
    Inr (Mask1 (map (\<lambda>i. \<forall>c \<in> set (selection_groups cfg). criterion_true table c i)
                 [start..<end]))"
proof -
  have "map2 (\<and>) (replicate (end - start) True)
          (map (\<lambda>i. \<forall>c \<in> set (selection_groups cfg). criterion_true table c i) [start..<end])
      = map (\<lambda>i. \<forall>c \<in> set (selection_groups cfg). criterion_true table c i) [start..<end]"
    by (auto simp: list_eq_iff_nth_eq)
  then show ?thesis
    using assms mask_loop_h5py_ok[OF assms(1,2,3), of "replicate (end - start) True"]
    by (simp add: create_mask_h5py_def mask_bounds_chunk)
qed

text \<open>After well-formed criteria the evaluator goes on with the rest of the loop.\<close>

lemma create_mask_h5py_prefix:
  assumes "selection_groups cfg = pre @ rest"
    "\<forall>c \<in> set pre. well_formed_criterion table n c"
    "start \<le> end" "end \<le> n" "0 < end"
  shows "\<exists>m. create_mask_h5py table cfg n (Some start) (Some end) =
    mask_loop_h5py table start end rest m"
  using assms mask_loop_h5py_ok[OF assms(2,3,4), of "replicate (end - start) True"]
  by (auto simp: create_mask_h5py_def mask_bounds_chunk mask_loop_h5py_append)

subsection \<open>On PyTables tables\<close>

lemma col_ok:
  assumes "table_ok table" "name \<in> set (colnames table)"
  shows "\<exists>vs. col (t_rows table) name = Inr vs \<and> length vs = length (t_rows table) \<and>
    (\<forall>i < length (t_rows table). map_of (t_rows table ! i) name = Some (vs ! i))"
proof -
  have "\<forall>row \<in> set rows. name \<in> fst ` set row \<Longrightarrow>
    \<exists>vs. col rows name = Inr vs \<and> length vs = length rows \<and>
      (\<forall>i < length rows. map_of (rows ! i) name = Some (vs ! i))" for rows
  proof (induction rows)
    case Nil
    show ?case by simp
  next
    case (Cons row rows)
    then obtain vs where vs: "col rows name = Inr vs" "length vs = length rows"
      "\<forall>i < length rows. map_of (rows ! i) name = Some (vs ! i)" by auto
    from Cons.prems obtain v where v: "map_of row name = Some v"
      by (cases "map_of row name") (auto simp: map_of_eq_None_iff)
    show ?case
      using vs v by (auto simp: row_get_def nth_Cons split: nat.splits)
  qed
  moreover have "\<forall>row \<in> set (t_rows table). name \<in> fst ` set row"
    using assms by (auto simp: table_ok_def list_all_iff) (metis list.set_map)
  ultimately show ?thesis by blast
qed

lemma col_result:
  "col rows name = Inr vs \<Longrightarrow>
    length vs = length rows \<and> (\<forall>i < length rows. map_of (rows ! i) name = Some (vs ! i))"
proof (induction rows arbitrary: vs)
  case Nil
  then show ?case by simp
next
  case (Cons row rows)
  then show ?case
    by (auto simp: row_get_def nth_Cons split: option.splits sum.splits nat.splits)
qed

text \<open>Whenever the evaluator returns on a whole table, its mask is the row-wise conjunction.\<close>

lemma mask_loop_table_result:
  assumes "mask_loop_table table 0 n cs m = Inr m'" "n = length (t_rows table)" "length m = n"
  shows "m' = map2 (\<and>) m (map (\<lambda>i. \<forall>c \<in> set cs. criterion_true_table table c i) [0..<n])"
  using assms
proof (induction cs arbitrary: m)
  case Nil
  then show ?case by (simp add: map2_and_True)
next
  case (Cons c cs)
  from Cons.prems(1) obtain name operator v where c: "c = [(name, operator, v)]"
    by (cases c) (auto split: if_splits list.splits)
  from Cons.prems(1) c obtain f where f: "map_of OPERATORS operator = Some f"
    by (auto split: if_splits option.splits)
  from Cons.prems(1) c f obtain vs where vs: "col (t_rows table) name = Inr vs"
    by (auto split: if_splits sum.splits)
  note cr = col_result[OF vs]
  let ?sel = "map (\<lambda>x. apply_operator f x v) (slice 0 n vs)"
  have sl: "slice 0 n vs = vs" using cr Cons.prems by (simp add: slice_def)
  have len: "length m = length ?sel" using cr Cons.prems sl by simp
  let ?m' = "map2 (\<and>) m ?sel"
  have step: "mask_loop_table table 0 n (c # cs) m = mask_loop_table table 0 n cs ?m'"
    using Cons.prems(1) c f vs by (auto simp: logical_and_same[OF len] split: if_splits)
  have len': "length ?m' = n" using len Cons.prems by simp
  have IH: "m' = map2 (\<and>) ?m' (map (\<lambda>i. \<forall>c \<in> set cs. criterion_true_table table c i) [0..<n])"
    using Cons.IH[OF _ Cons.prems(2) len'] Cons.prems(1) step by simp
  have ct: "\<And>i. i < n \<Longrightarrow> criterion_true_table table c i = apply_operator f (vs ! i) v"
    using c f cr Cons.prems(2) by simp
  have "map2 (\<and>) ?m' (map (\<lambda>i. \<forall>c \<in> set cs. criterion_true_table table c i) [0..<n]) =
      map2 (\<and>) m (map (\<lambda>i. \<forall>c \<in> set (c # cs). criterion_true_table table c i) [0..<n])"
  proof (rule nth_equalityI)
    show "length (map2 (\<and>) ?m' (map (\<lambda>i. \<forall>c \<in> set cs. criterion_true_table table c i) [0..<n])) =
      length (map2 (\<and>) m (map (\<lambda>i. \<forall>c \<in> set (c # cs). criterion_true_table table c i) [0..<n]))"
      using Cons.prems(3) len by simp
  next
    fix i
    assume "i < length (map2 (\<and>) ?m' (map (\<lambda>i. \<forall>c \<in> set cs. criterion_true_table table c i) [0..<n]))"
    then have i: "i < n" by simp
    then have "i < length vs" "i < length m" using cr Cons.prems(2,3) by simp_all
    then show "map2 (\<and>) ?m' (map (\<lambda>i. \<forall>c \<in> set cs. criterion_true_table table c i) [0..<n]) ! i =
      map2 (\<and>) m (map (\<lambda>i. \<forall>c \<in> set (c # cs). criterion_true_table table c i) [0..<n]) ! i"
      using i ct[OF i] by (simp add: sl)
  qed
  with IH show ?case by simp
qed

lemma well_formed_criterion_tableE:
  assumes "well_formed_criterion_table table c"
  obtains name operator v f where "c = [(name, operator, v)]"
    "map_of OPERATORS operator = Some f" "name \<in> set (colnames table)"
  using assms
  by (cases "(table, c)" rule: well_formed_criterion_table.cases) auto

lemma mask_loop_table_ok:
  assumes "\<forall>c \<in> set cs. well_formed_criterion_table table c" "table_ok table"
    "start \<le> end" "end \<le> length (t_rows table)" "length m = end - start"
  shows "mask_loop_table table start end cs m =
    Inr (map2 (\<and>) m (map (\<lambda>i. \<forall>c \<in> set cs. criterion_true_table table c i) [start..<end]))"
  using assms
proof (induction cs arbitrary: m)
  case Nil
  then show ?case by (simp add: map2_and_True)
next
  case (Cons c cs)
  from Cons.prems(1) have "well_formed_criterion_table table c" by simp
  then obtain name operator v f where c: "c = [(name, operator, v)]"
    and f: "map_of OPERATORS operator = Some f"
    and name: "name \<in> set (colnames table)"
    by (rule well_formed_criterion_tableE)
  from col_ok[OF Cons.prems(2) name] obtain vs where vs: "col (t_rows table) name = Inr vs"
    "length vs = length (t_rows table)"
    "\<forall>i < length (t_rows table). map_of (t_rows table ! i) name = Some (vs ! i)" by blast
  let ?sel = "map (\<lambda>x. apply_operator f x v) (slice start end vs)"
  have sl: "slice start end vs = map ((!) vs) [start..<end]"
    using Cons.prems vs by (intro slice_nth) auto
  have len: "length m = length ?sel" using Cons.prems sl by simp
  let ?m' = "map2 (\<and>) m ?sel"
  have step: "mask_loop_table table start end (c # cs) m = mask_loop_table table start end cs ?m'"
    using c f vs name by (simp add: logical_and_same[OF len])
  have len': "length ?m' = end - start" using len Cons.prems by simp
  have IH: "mask_loop_table table start end cs ?m' =
    Inr (map2 (\<and>) ?m' (map (\<lambda>i. \<forall>c \<in> set cs. criterion_true_table table c i) [start..<end]))"
    using Cons.IH[OF _ Cons.prems(2,3,4) len'] Cons.prems(1) by simp
  have ct: "\<And>i. i < length (t_rows table) \<Longrightarrow>
      criterion_true_table table c i = apply_operator f (vs ! i) v"
    using c f vs by simp
  have "map2 (\<and>) ?m' (map (\<lambda>i. \<forall>c \<in> set cs. criterion_true_table table c i) [start..<end]) =
      map2 (\<and>) m (map (\<lambda>i. \<forall>c \<in> set (c # cs). criterion_true_table table c i) [start..<end])"
  proof (rule nth_equalityI)
    show "length (map2 (\<and>) ?m' (map (\<lambda>i. \<forall>c \<in> set cs. criterion_true_table table c i) [start..<end])) =
      length (map2 (\<and>) m (map (\<lambda>i. \<forall>c \<in> set (c # cs). criterion_true_table table c i) [start..<end]))"
      using Cons.prems(5) len by simp
  next
    fix i
    assume "i < length (map2 (\<and>) ?m' (map (\<lambda>i. \<forall>c \<in> set cs. criterion_true_table table c i) [start..<end]))"
    then have i: "i < end - start" by simp
    then have "start + i < length (t_rows table)" "i < length m"
      using Cons.prems(4,5) by simp_all
    then show "map2 (\<and>) ?m' (map (\<lambda>i. \<forall>c \<in> set cs. criterion_true_table table c i) [start..<end]) ! i =
      map2 (\<and>) m (map (\<lambda>i. \<forall>c \<in> set (c # cs). criterion_true_table table c i) [start..<end]) ! i"
      using i ct[of "start + i"] by (simp add: sl)
  qed
  with step IH show ?case by simp
qed

lemma create_mask_table_ok:
  assumes "\<forall>c \<in> set (selection_groups cfg). well_formed_criterion_table table c"
    "table_ok table" "start \<le> end" "end \<le> n" "0 < end" "length (t_rows table) = n"
  shows "create_mask_table table cfg n (Some start) (Some end) =
    Inr (map (\<lambda>i. \<forall>c \<in> set (selection_groups cfg). criterion_true_table table c i) [start..<end])"
proof -
  have "map2 (\<and>) (replicate (end - start) True)
          (map (\<lambda>i. \<forall>c \<in> set (selection_groups cfg). criterion_true_table table c i) [start..<end])
      = map (\<lambda>i. \<forall>c \<in> set (selection_groups cfg). criterion_true_table table c i) [start..<end]"
    by (auto simp: list_eq_iff_nth_eq)
  then show ?thesis
    using assms mask_loop_table_ok[OF assms(1,2,3), of "replicate (end - start) True"]
    by (simp add: create_mask_table_def mask_bounds_chunk)
qed

text \<open>
  C2. On a chunk \<open>[start, end)\<close> of a table of \<open>n_events\<close> rows (with \<open>0 < end\<close>, as
  \<^verbatim>\<open>end=0\<close> stands for "no end given") and a configuration of well-formed criteria
  on existing columns, each evaluator returns a mask of length \<open>end - start\<close> whose
  entry \<open>i\<close> is true iff every criterion evaluates true for row \<open>start + i\<close>.
\<close>

theorem mask_is_conjunction_of_criteria:
  assumes "start \<le> end" and "end \<le> n_events" and "0 < end"
    and "\<forall>c \<in> set (selection_groups cfg). well_formed_criterion h5 n_events c"
    and "\<forall>c \<in> set (selection_groups cfg). well_formed_criterion_table table c"
    and "table_ok table" and "length (t_rows table) = n_events"
  shows "(\<exists>m. create_mask_h5py h5 cfg n_events (Some start) (Some end) = Inr (Mask1 m) \<and>
            length m = end - start \<and>
            (\<forall>i < end - start.
               m ! i = (\<forall>c \<in> set (selection_groups cfg). criterion_true h5 c (start + i)))) \<and>
         (\<exists>m. create_mask_table table cfg n_events (Some start) (Some end) = Inr m \<and>
            length m = end - start \<and>
            (\<forall>i < end - start.
               m ! i = (\<forall>c \<in> set (selection_groups cfg). criterion_true_table table c (start + i))))"
  using create_mask_h5py_ok[OF assms(4,1,2,3)] create_mask_table_ok[OF assms(5,6,1,2,3,7)]
  by simp

theorem mask_is_conjunction_of_criteria_witness:
  "create_mask_h5py [(''x'', D1 [1, 2, 3 :: int]), (''y'', D1 [5, 15, 25])]
      (SelList [[(''x'', ''>'', 1)], [(''y'', ''lt'', 20)]]) 3 (Some 1) (Some 3)
     = Inr (Mask1 [True, False]) \<and>
   create_mask_table
      \<lparr>t_name = ''tel_001'', t_parent = parameters_key, colnames = [''x'', ''y''],
       t_rows = [[(''x'', 1 :: int), (''y'', 5)], [(''x'', 2), (''y'', 15)], [(''x'', 3), (''y'', 25)]]\<rparr>
      (SelList [[(''x'', ''>'', 1)], [(''y'', ''lt'', 20)]]) 3 (Some 1) (Some 3) = Inr [True, False]"
proof -
  let ?h5 = "[(''x'', D1 [1, 2, 3 :: int]), (''y'', D1 [5, 15, 25])]"
  let ?t = "\<lparr>t_name = ''tel_001'', t_parent = parameters_key, colnames = [''x'', ''y''],
       t_rows = [[(''x'', 1 :: int), (''y'', 5)], [(''x'', 2), (''y'', 15)], [(''x'', 3), (''y'', 25)]]\<rparr>"
  let ?cfg = "SelList [[(''x'', ''>'', 1 :: int)], [(''y'', ''lt'', 20)]]"
  have h: "(1::nat) \<le> 3" "(3::nat) \<le> 3" "(0::nat) < 3"
    "\<forall>c \<in> set (selection_groups ?cfg). well_formed_criterion ?h5 3 c"
    "\<forall>c \<in> set (selection_groups ?cfg). well_formed_criterion_table ?t c"
    "table_ok ?t" "length (t_rows ?t) = 3"
    by (simp_all add: OPERATORS_def table_ok_def)
  from mask_is_conjunction_of_criteria[OF h]
  obtain m1 m2 where
    m1: "create_mask_h5py ?h5 ?cfg 3 (Some 1) (Some 3) = Inr (Mask1 m1)" "length m1 = 3 - 1"
      "\<forall>i < 3 - 1. m1 ! i = (\<forall>c \<in> set (selection_groups ?cfg). criterion_true ?h5 c (1 + i))"
    and m2: "create_mask_table ?t ?cfg 3 (Some 1) (Some 3) = Inr m2" "length m2 = 3 - 1"
      "\<forall>i < 3 - 1. m2 ! i = (\<forall>c \<in> set (selection_groups ?cfg). criterion_true_table ?t c (1 + i))"
    by blast
  have "m1 ! 0 = True" "m1 ! 1 = False" using m1(3) by (simp_all add: OPERATORS_def)
  with m1(2) have "m1 = [True, False]" by (auto simp: list_eq_iff_nth_eq less_Suc_eq numeral_2_eq_2)
  moreover have "m2 ! 0 = True" "m2 ! 1 = False" using m2(3) by (simp_all add: OPERATORS_def)
  with m2(2) have "m2 = [True, False]" by (auto simp: list_eq_iff_nth_eq less_Suc_eq numeral_2_eq_2)
  ultimately show ?thesis using m1(1) m2(1) by simp
qed

subsection \<open>The spelling \<^verbatim>\<open>=\<close>\<close>

lemma mask_loop_h5py_eq_sign:
  "mask_loop_h5py table s e (pre @ [(name, ''='', v)] # post) m =
   mask_loop_h5py table s e (pre @ [(name, ''=='', v)] # post) m"
proof (induction pre arbitrary: m)
  case Nil
  show ?case by (simp add: OPERATORS_def)
next
  case (Cons c pre)
  show ?case
    by (simp add: Cons.IH split: list.splits option.splits sum.splits prod.splits)
qed

lemma mask_loop_table_eq_sign:
  "mask_loop_table table s e (pre @ [(name, ''='', v)] # post) m =
   mask_loop_table table s e (pre @ [(name, ''=='', v)] # post) m"
proof (induction pre arbitrary: m)
  case Nil
  show ?case by (simp add: OPERATORS_def)
next
  case (Cons c pre)
  show ?case
    by (simp add: Cons.IH split: list.splits option.splits sum.splits prod.splits)
qed

text \<open>
  C10. \<^verbatim>\<open>OPERATORS\<close> maps \<^verbatim>\<open>=\<close> to equality, as it maps \<^verbatim>\<open>==\<close>; a criterion spelled
  with \<^verbatim>\<open>=\<close>, anywhere in a configuration of either form, gives both evaluators the
  result that the same criterion spelled with \<^verbatim>\<open>==\<close> gives.
\<close>

theorem equals_sign_is_equality:
  "map_of OPERATORS ''='' = Some Eq \<and> map_of OPERATORS ''=='' = Some Eq \<and>
   create_mask_h5py h5 (SelList (pre @ [(name, ''='', v)] # post)) n_events start end =
   create_mask_h5py h5 (SelList (pre @ [(name, ''=='', v)] # post)) n_events start end \<and>
   create_mask_table table (SelList (pre @ [(name, ''='', v)] # post)) n_events start end =
   create_mask_table table (SelList (pre @ [(name, ''=='', v)] # post)) n_events start end \<and>
   create_mask_h5py h5 (SelDict (dpre @ (name, ''='', v) # dpost)) n_events start end =
   create_mask_h5py h5 (SelDict (dpre @ (name, ''=='', v) # dpost)) n_events start end \<and>
   create_mask_table table (SelDict (dpre @ (name, ''='', v) # dpost)) n_events start end =
   create_mask_table table (SelDict (dpre @ (name, ''=='', v) # dpost)) n_events start end"
  using mask_loop_h5py_eq_sign[of h5 _ _ "map (\<lambda>kv. [kv]) dpre" name v "map (\<lambda>kv. [kv]) dpost"]
    mask_loop_table_eq_sign[of table _ _ "map (\<lambda>kv. [kv]) dpre" name v "map (\<lambda>kv. [kv]) dpost"]
  by (simp add: create_mask_h5py_def create_mask_table_def mask_loop_h5py_eq_sign
      mask_loop_table_eq_sign Let_def) (simp add: OPERATORS_def)

section \<open>Properties of the chunked filtered copy\<close>

subsection \<open>The first chunk\<close>

lemma first_chunk:
  assumes "0 < n_events" "0 < chunksize"
  shows "apply_cuts_h5py_chunked table n_events cfg chunksize =
    (case create_mask_h5py table cfg n_events (Some 0) (Some (min n_events chunksize)) of
       Inl err \<Rightarrow> (Some err, Some [])
     | Inr m \<Rightarrow>
        (case write_columns 0 0 (min n_events chunksize) m table [] of
           (Some err, grp) \<Rightarrow> (Some err, Some grp)
         | (None, grp) \<Rightarrow>
            (case chunk_loop table cfg n_events chunksize
                    [1..<(n_events + chunksize - 1) div chunksize] grp of
               (err, grp') \<Rightarrow> (err, Some grp'))))"
proof -
  have "0 < (n_events + chunksize - 1) div chunksize"
    using assms by (simp add: div_greater_zero_iff)
  then have "[0..<(n_events + chunksize - 1) div chunksize] =
      0 # [1..<(n_events + chunksize - 1) div chunksize]"
    by (simp add: upt_conv_Cons)
  then show ?thesis
    using assms
    by (simp add: apply_cuts_h5py_chunked_def Let_def split: sum.splits option.splits prod.splits)
qed

lemma first_chunk_mask_fails:
  assumes "0 < n_events" "0 < chunksize"
    and "selection_groups cfg = pre @ rest"
    and "\<forall>c \<in> set pre. well_formed_criterion table n_events c"
    and "\<And>m. mask_loop_h5py table 0 (min n_events chunksize) rest m = Inl err"
  shows "apply_cuts_h5py_chunked table n_events cfg chunksize = (Some err, Some [])"
proof -
  from create_mask_h5py_prefix[OF assms(3,4), of 0 "min n_events chunksize"] assms(1,2,5)
  have "create_mask_h5py table cfg n_events (Some 0) (Some (min n_events chunksize)) = Inl err"
    by auto
  then show ?thesis by (simp add: first_chunk[OF assms(1,2)])
qed

text \<open>
  C6, as the code has it. On a table with at least one row, a configuration whose groups
  before a group of more than one column are well-formed criteria makes the copy fail
  with the malformed-entry error in the mask evaluation of the first chunk: the output
  file has been opened and holds its empty group, no column has been written.
\<close>

theorem malformed_entry_fails_in_first_chunk:
  assumes "0 < n_events" and "0 < chunksize"
    and "selection_groups cfg = pre @ c # post" and "1 < length c"
    and "\<forall>c' \<in> set pre. well_formed_criterion table n_events c'"
  shows "apply_cuts_h5py_chunked table n_events cfg chunksize = (Some MalformedEntry, Some [])"
  using assms(4) by (intro first_chunk_mask_fails[OF assms(1,2,3,5)]) simp

theorem malformed_entry_fails_in_first_chunk_witness:
  "apply_cuts_h5py_chunked [(''x'', D1 [1, 2, 3 :: int]), (''y'', D1 [5, 15, 25])] 3
     (SelList [[(''x'', ''>'', 1)], [(''x'', ''<'', 3), (''y'', ''<'', 20)]]) 2
   = (Some MalformedEntry, Some [])"
  by (rule malformed_entry_fails_in_first_chunk[where pre = "[[(''x'', ''>'', 1)]]"
        and c = "[(''x'', ''<'', 3), (''y'', ''<'', 20)]" and post = "[]"])
     (simp_all add: OPERATORS_def)

theorem malformed_entry_zero_rows_counterexample:
  "apply_cuts_h5py_chunked [(''x'', D1 ([] :: int list)), (''y'', D1 [])] 0
     (SelList [[(''x'', ''>'', 1), (''y'', ''>'', 2)]]) 10 = (None, Some [])"
  by (simp add: apply_cuts_h5py_chunked_def)

text \<open>
  C7, as the code has it. On a table with at least one row, a configuration whose groups
  before a criterion with an operator that is no key of \<^verbatim>\<open>OPERATORS\<close> are well-formed
  criteria makes the copy fail with the unknown-operator error in the mask evaluation of
  the first chunk: the output file holds its empty group, no column has been written.
\<close>

theorem unknown_operator_fails_in_first_chunk:
  assumes "0 < n_events" and "0 < chunksize"
    and "selection_groups cfg = pre @ [(name, operator, v)] # post"
    and "map_of OPERATORS operator = None"
    and "\<forall>c' \<in> set pre. well_formed_criterion table n_events c'"
  shows "apply_cuts_h5py_chunked table n_events cfg chunksize =
    (Some (UnknownOperator operator), Some [])"
  using assms(4) by (intro first_chunk_mask_fails[OF assms(1,2,3,5)]) simp

theorem unknown_operator_fails_in_first_chunk_witness:
  "apply_cuts_h5py_chunked [(''x'', D1 [1, 2, 3 :: int]), (''y'', D1 [5, 15, 25])] 3
     (SelList [[(''x'', ''>'', 1)], [(''y'', ''=<'', 20)]]) 2
   = (Some (UnknownOperator ''=<''), Some [])"
  by (rule unknown_operator_fails_in_first_chunk[where pre = "[[(''x'', ''>'', 1)]]"
        and name = "''y''" and v = 20 and post = "[]"])
     (simp_all add: OPERATORS_def)

theorem unknown_operator_zero_rows_counterexample:
  "apply_cuts_h5py_chunked [(''x'', D1 ([] :: int list))] 0
     (SelList [[(''x'', ''=<'', 1)]]) 10 = (None, Some [])"
  by (simp add: apply_cuts_h5py_chunked_def)

subsection \<open>Schema of the output\<close>

lemma schema_append [simp]: "schema (g @ h) = schema g @ schema h"
  by (simp add: schema_def)

lemma create_dataset_result:
  "create_dataset grp name data maxshape = Inr grp' \<Longrightarrow> grp' = grp @ [(name, data)]"
  by (auto simp: create_dataset_def split: if_splits option.splits)

lemma write_columns_first_schema:
  "write_columns 0 start end m table grp = (None, grp') \<Longrightarrow>
    schema grp' = schema grp @ filter (\<lambda>(name, k). k \<noteq> RankOther) (schema table)"
proof (induction table arbitrary: grp)
  case Nil
  then show ?case by (simp add: schema_def)
next
  case (Cons item table)
  obtain name ds where item: "item = (name, ds)" by (cases item)
  show ?case
  proof (cases ds)
    case (D1 xs)
    with Cons.prems item obtain data g1 where
      "create_dataset grp name (D1 data) [None] = Inr g1"
      "write_columns 0 start end m table g1 = (None, grp')"
      by (auto split: sum.splits)
    then show ?thesis
      using Cons.IH[of g1] item D1 by (auto dest!: create_dataset_result simp: schema_def)
  next
    case (D2 d rows)
    with Cons.prems item obtain data g1 where
      "create_dataset grp name (D2 d data) [None, Some 2] = Inr g1"
      "write_columns 0 start end m table g1 = (None, grp')"
      by (auto split: sum.splits)
    then show ?thesis
      using Cons.IH[of g1] item D2 by (auto dest!: create_dataset_result simp: schema_def)
  next
    case (DN shp cells)
    with Cons.prems item have "write_columns 0 start end m table grp = (None, grp')" by simp
    then show ?thesis using Cons.IH[of grp] item DN by (simp add: schema_def)
  qed
qed

lemma schema_set_dataset:
  "map_of grp name = Some old \<Longrightarrow> kind_of ds = kind_of old \<Longrightarrow>
    schema (set_dataset grp name ds) = schema grp"
  by (induction grp) (auto simp: schema_def split: if_splits)

lemma map_of_set_dataset:
  "map_of grp name = Some old \<Longrightarrow> map_of (set_dataset grp name ds) name = Some ds"
  by (induction grp) (auto split: if_splits)

lemma kind_of_resize [simp]: "kind_of (resize old n) = kind_of old"
  by (cases old) simp_all

lemma kind_of_write_rows:
  "write_rows resized n_old data = Inr new \<Longrightarrow> kind_of new = kind_of resized"
  by (cases "(resized, n_old, data)" rule: write_rows.cases) (auto split: if_splits)

lemma write_columns_later_schema:
  "chunk \<noteq> 0 \<Longrightarrow> write_columns chunk start end m table grp = (err, grp') \<Longrightarrow>
    schema grp' = schema grp"
proof (induction table arbitrary: grp)
  case Nil
  then show ?case by simp
next
  case (Cons item table)
  obtain name ds where item: "item = (name, ds)" by (cases item)
  show ?case
  proof (cases "map_of grp name")
    case None
    with Cons.prems item show ?thesis by simp
  next
    case (Some old)
    let ?resized = "resize old (count_nonzero m)"
    let ?g1 = "set_dataset grp name ?resized"
    have g1: "schema ?g1 = schema grp" "map_of ?g1 name = Some ?resized"
      using Some by (simp_all add: schema_set_dataset map_of_set_dataset)
    have written: "schema (set_dataset ?g1 name new) = schema grp"
      if "write_rows ?resized (nrows old) data = Inr new" for data new
      using g1 kind_of_write_rows[OF that] by (simp add: schema_set_dataset)
    show ?thesis
    proof (cases ds)
      case (D1 xs)
      show ?thesis
        using Cons.prems item D1 Some g1(1) written Cons.IH[OF Cons.prems(1)]
        by (auto simp: Let_def split: sum.splits)
    next
      case (D2 d rows)
      show ?thesis
        using Cons.prems item D2 Some g1(1) written Cons.IH[OF Cons.prems(1)]
        by (auto simp: Let_def split: sum.splits)
    next
      case (DN shp cells)
      show ?thesis
        using Cons.prems item DN Some g1(1) Cons.IH[OF Cons.prems(1)]
        by (auto simp: Let_def)
    qed
  qed
qed

lemma chunk_loop_later_schema:
  "\<forall>chunk \<in> set chunks. chunk \<noteq> 0 \<Longrightarrow>
    chunk_loop table cfg n_events chunksize chunks grp = (err, grp') \<Longrightarrow>
    schema grp' = schema grp"
proof (induction chunks arbitrary: grp)
  case Nil
  then show ?case by simp
next
  case (Cons chunk chunks)
  then have nz: "chunk \<noteq> 0" by simp
  show ?case
    using Cons.prems Cons.IH write_columns_later_schema[OF nz]
    by (auto simp: Let_def split: sum.splits prod.splits option.splits)
qed

text \<open>
  C4, as the code has it. When the copy of a table with at least one row returns, the
  output has the columns of rank 1 and 2 of the input, in the order of the input, each
  with the rank and second dimension it has there; the columns of another rank are
  left out.
\<close>

theorem output_schema_is_supported_input_schema:
  assumes "apply_cuts_h5py_chunked table n_events cfg chunksize = (None, Some grp)"
    and "0 < n_events"
  shows "schema grp = filter (\<lambda>(name, k). k \<noteq> RankOther) (schema table)"
proof -
  have c: "0 < chunksize"
    using assms(1) by (cases "chunksize = 0") (simp_all add: apply_cuts_h5py_chunked_def)
  from assms(1) obtain m g0 where
    g0: "write_columns 0 0 (min n_events chunksize) m table [] = (None, g0)"
    and rest: "chunk_loop table cfg n_events chunksize
        [1..<(n_events + chunksize - 1) div chunksize] g0 = (None, grp)"
    unfolding first_chunk[OF assms(2) c]
    by (auto split: sum.splits prod.splits option.splits)
  have "schema grp = schema g0"
    using rest by (intro chunk_loop_later_schema[OF _ rest]) simp
  with write_columns_first_schema[OF g0] show ?thesis by (simp add: schema_def)
qed

theorem output_schema_is_supported_input_schema_witness:
  "apply_cuts_h5py_chunked
      [(''img'', DN [3, 1, 1] [7, 8, 9]), (''x'', D1 [1, 2, 3 :: int]),
       (''xy'', D2 2 [[1, 1], [2, 2], [3, 3]])] 3
      (SelList [[(''x'', ''>'', 5)]]) 3
    = (None, Some [(''x'', D1 []), (''xy'', D2 2 [])]) \<and>
   schema [(''x'', D1 ([] :: int list)), (''xy'', D2 2 [])] = [(''x'', Rank1), (''xy'', Rank2 2)]"
proof -
  have run: "apply_cuts_h5py_chunked
      [(''img'', DN [3, 1, 1] [7, 8, 9]), (''x'', D1 [1, 2, 3 :: int]),
       (''xy'', D2 2 [[1, 1], [2, 2], [3, 3]])] 3
      (SelList [[(''x'', ''>'', 5)]]) 3
    = (None, Some [(''x'', D1 []), (''xy'', D2 2 [])])"
    by code_simp
  from output_schema_is_supported_input_schema[OF run]
  show ?thesis using run by (simp add: schema_def)
qed

theorem schema_not_preserved_counterexample:
  "apply_cuts_h5py_chunked [(''img'', DN [2, 1, 1] [8, 9]), (''x'', D1 [1, 2 :: int])] 2 (SelList []) 2
     = (None, Some [(''x'', D1 [1, 2])]) \<and>
   schema [(''x'', D1 [1, 2 :: int])] \<noteq> schema [(''img'', DN [2, 1, 1] [8, 9]), (''x'', D1 [1, 2 :: int])] \<and>
   apply_cuts_h5py_chunked [(''x'', D1 ([] :: int list))] 0 (SelList []) 2 = (None, Some []) \<and>
   schema ([] :: int h5group) \<noteq> schema [(''x'', D1 ([] :: int list))]"
  by (simp add: schema_def) code_simp

subsection \<open>Columns of rank 2\<close>

lemma write_columns_first_wide:
  "(name, D2 d rows) \<in> set table \<Longrightarrow> 2 < d \<Longrightarrow>
    \<exists>err. fst (write_columns 0 start end m table grp) = Some err"
proof (induction table arbitrary: grp)
  case Nil
  then show ?case by simp
next
  case (Cons item table)
  show ?case
  proof (cases "item = (name, D2 d rows)")
    case True
    then show ?thesis
      using Cons.prems(2)
      by (auto simp: create_dataset_def fits_maxshape_def split: sum.splits)
  next
    case False
    with Cons.prems have "(name, D2 d rows) \<in> set table" by simp
    from Cons.IH[OF this Cons.prems(2)] show ?thesis
      by (cases item) (auto split: dataset.splits sum.splits)
  qed
qed

text \<open>
  C8, as the code has it. \<^verbatim>\<open>maxshape=(None, 2)\<close> bounds the second dimension from above:
  on a table with at least one row, the copy fails when some column of rank 2 has a
  second dimension greater than 2.
\<close>

theorem wide_rank2_column_fails:
  assumes "0 < n_events" and "0 < chunksize"
    and "(name, D2 d rows) \<in> set table" and "2 < d"
  shows "\<exists>err. fst (apply_cuts_h5py_chunked table n_events cfg chunksize) = Some err"
proof (cases "create_mask_h5py table cfg n_events (Some 0) (Some (min n_events chunksize))")
  case (Inl err)
  then show ?thesis by (simp add: first_chunk[OF assms(1,2)])
next
  case (Inr m)
  from write_columns_first_wide[OF assms(3,4), of 0 "min n_events chunksize" m "[]"]
  obtain err where "fst (write_columns 0 0 (min n_events chunksize) m table []) = Some err" ..
  then show ?thesis
    using Inr by (auto simp: first_chunk[OF assms(1,2)] split: prod.splits option.splits)
qed

theorem wide_rank2_column_fails_witness:
  "fst (apply_cuts_h5py_chunked [(''x'', D1 [1 :: int]), (''xyz'', D2 3 [[5, 6, 7]])] 1 (SelList []) 1)
     = Some (MaxshapeError ''xyz'')"
proof -
  from wide_rank2_column_fails[of 1 1 "''xyz''" 3 "[[5, 6, 7 :: int]]"
      "[(''x'', D1 [1 :: int]), (''xyz'', D2 3 [[5, 6, 7]])]" "SelList []"]
  obtain err where
    "fst (apply_cuts_h5py_chunked [(''x'', D1 [1 :: int]), (''xyz'', D2 3 [[5, 6, 7]])] 1 (SelList []) 1)
      = Some err"
    by auto
  moreover have "apply_cuts_h5py_chunked [(''x'', D1 [1 :: int]), (''xyz'', D2 3 [[5, 6, 7]])] 1 (SelList []) 1
      = (Some (MaxshapeError ''xyz''), Some [(''x'', D1 [1])])"
    by code_simp
  ultimately show ?thesis by simp
qed

theorem narrow_rank2_column_counterexample:
  "apply_cuts_h5py_chunked [(''x'', D1 [0, 7 :: int]), (''xy'', D2 1 [[5], [6]])] 2
      (SelList [[(''x'', ''>'', 1)]]) 1
     = (None, Some [(''x'', D1 [7]), (''xy'', D2 1 [[6]])]) \<and>
   apply_cuts_h5py_chunked [(''xyz'', D2 3 ([] :: int list list))] 0 (SelList []) 1
     = (None, Some [])"
  by code_simp

subsection \<open>Columns of another rank\<close>

text \<open>
  C5. A table of two rows with a column of rank 3 beside a column of rank 1, copied in
  chunks of one row: the second chunk looks the skipped column up in the output group
  and the copy ends with that KeyError, the rank-1 column holding the first chunk only.
  In one chunk the same table is copied without the rank-3 column.
\<close>

theorem unsupported_rank_fails_in_second_chunk:
  "apply_cuts_h5py_chunked [(''img'', DN [2, 1, 1] [8, 9]), (''x'', D1 [1, 2 :: int])] 2 (SelList []) 1
     = (Some (MissingOutput ''img''), Some [(''x'', D1 [1])]) \<and>
   apply_cuts_h5py_chunked [(''img'', DN [2, 1, 1] [8, 9]), (''x'', D1 [1, 2 :: int])] 2 (SelList []) 2
     = (None, Some [(''x'', D1 [1, 2])])"
  by code_simp

text \<open>
  A criterion on a column of rank 3 gives a mask of rank 3; a table that has no column
  of rank 1 or 2 is then copied, in one chunk, to an empty group, while a column of
  rank 2 cannot be read with such a mask.
\<close>

lemma criterion_on_other_rank_example:
  "create_mask_h5py [(''img'', DN [2, 1, 1] [5, 0 :: int])] (SelList [[(''img'', ''>'', 2)]]) 2
      (Some 0) (Some 2)
     = Inr (MaskN [2, 1, 2] [True, True, False, False]) \<and>
   apply_cuts_h5py_chunked [(''img'', DN [2, 1, 1] [5, 0 :: int])] 2
      (SelList [[(''img'', ''>'', 2)]]) 2
     = (None, Some []) \<and>
   apply_cuts_h5py_chunked [(''xy'', D2 2 [[1, 5], [7, 0 :: int]])] 2
      (SelList [[(''xy'', ''>'', 2)]]) 2
     = (Some MaskIndexError, Some [])"
  by code_simp

text \<open>
  C1. The same defect makes the result depend on the chunk size: a table of three rows
  with a column of rank 3 is filtered in one chunk of three rows, and fails in chunks of
  two rows.
\<close>

theorem chunksize_changes_result_with_unsupported_rank:
  "apply_cuts_h5py_chunked [(''img'', DN [3, 1, 1] [7, 8, 9]), (''x'', D1 [1, 2, 3 :: int])] 3
      (SelList [[(''x'', ''>'', 1)]]) 3
     = (None, Some [(''x'', D1 [2, 3])]) \<and>
   apply_cuts_h5py_chunked [(''img'', DN [3, 1, 1] [7, 8, 9]), (''x'', D1 [1, 2, 3 :: int])] 3
      (SelList [[(''x'', ''>'', 1)]]) 2
     = (Some (MissingOutput ''img''), Some [(''x'', D1 [2])])"
  by code_simp

subsection \<open>The copy, chunk by chunk\<close>

lemma masked_filter:
  assumes "start \<le> end" "end \<le> length xs"
  shows "masked (slice start end xs) (Mask1 (map P [start..<end])) =
    Inr (map ((!) xs) (filter P [start..<end]))"
proof -
  have "map fst (filter snd (zip (map ((!) xs) is) (map P is))) = map ((!) xs) (filter P is)"
    for "is" :: "nat list"
    by (induction "is") simp_all
  then show ?thesis
    using assms by (simp add: slice_nth)
qed

lemma count_nonzero_map: "count_nonzero (Mask1 (map P is)) = length (filter P is)"
  by (induction "is") simp_all

lemma filter_upt_split:
  "s \<le> e \<Longrightarrow> filter P [0..<e] = filter P [0..<s] @ filter P [s..<e]"
  by (metis filter_append le0 upt_add_eq_append le_add_diff_inverse)

lemma overwrite_tail:
  "length ys = n_old \<Longrightarrow> overwrite n_old data (ys @ replicate (length data) z) = ys @ data"
  by (simp add: overwrite_def)

lemma set_dataset_middle:
  "name \<notin> fst ` set A \<Longrightarrow> set_dataset (A @ (name, old) # B) name new = A @ (name, new) # B"
  by (induction A) auto

lemma map_of_middle:
  "name \<notin> fst ` set A \<Longrightarrow> map_of (A @ (name, old) # B) name = Some old"
  by (induction A) auto

lemma filtered_table_names [simp]: "map fst (filtered_table P n table) = map fst table"
  by (induction table) (auto simp: filtered_table_def)

lemma filtered_table_Nil [simp]: "filtered_table P n [] = []"
  by (simp add: filtered_table_def)

lemma filtered_table_append [simp]:
  "filtered_table P n (A @ B) = filtered_table P n A @ filtered_table P n B"
  by (simp add: filtered_table_def)

text \<open>A later chunk appends the passing rows of the chunk to every column.\<close>

lemma later_column:
  assumes "chunk \<noteq> 0" "s \<le> e" "e \<le> n" "kind_of ds \<noteq> RankOther" "nrows ds = n"
    "name \<notin> fst ` set A"
  shows "write_columns chunk s e (Mask1 (map P [s..<e])) ((name, ds) # rest)
      (A @ (name, filtered_column P s ds) # B) =
    write_columns chunk s e (Mask1 (map P [s..<e])) rest
      (A @ (name, filtered_column P e ds) # B)"
proof (cases ds)
  case (D1 xs)
  let ?old = "map ((!) xs) (filter P [0..<s])"
  let ?data = "map ((!) xs) (filter P [s..<e])"
  have data: "masked (slice s e xs) (Mask1 (map P [s..<e])) = Inr ?data"
    using assms D1 by (intro masked_filter) simp_all
  have "overwrite (length ?old) ?data (?old @ replicate (length ?data) 0) = ?old @ ?data"
    by (rule overwrite_tail) simp
  then have new: "overwrite (length (filter P [0..<s])) ?data
      (?old @ replicate (length (filter P [s..<e])) 0) = map ((!) xs) (filter P [0..<e])"
    using filter_upt_split[OF assms(2), of P] by simp
  show ?thesis
    using assms(1,6) D1 data new
    by (simp add: map_of_middle set_dataset_middle count_nonzero_map Let_def del: map_of_append)
next
  case (D2 d rows)
  let ?old = "map ((!) rows) (filter P [0..<s])"
  let ?data = "map ((!) rows) (filter P [s..<e])"
  have data: "masked (slice s e rows) (Mask1 (map P [s..<e])) = Inr ?data"
    using assms D2 by (intro masked_filter) simp_all
  have "overwrite (length ?old) ?data (?old @ replicate (length ?data) (replicate d 0)) = ?old @ ?data"
    by (rule overwrite_tail) simp
  then have new: "overwrite (length (filter P [0..<s])) ?data
      (?old @ replicate (length (filter P [s..<e])) (replicate d 0)) =
      map ((!) rows) (filter P [0..<e])"
    using filter_upt_split[OF assms(2), of P] by simp
  show ?thesis
    using assms(1,6) D2 data new
    by (simp add: map_of_middle set_dataset_middle count_nonzero_map Let_def del: map_of_append)
next
  case (DN shp cells)
  with assms(4) show ?thesis by simp
qed

lemma later_columns:
  assumes "chunk \<noteq> 0" "s \<le> e" "e \<le> n"
  shows "supported_ranks todo \<Longrightarrow> table_rows n todo \<Longrightarrow> distinct (map fst (done @ todo)) \<Longrightarrow>
    write_columns chunk s e (Mask1 (map P [s..<e])) todo
      (filtered_table P e done @ filtered_table P s todo) =
    (None, filtered_table P e (done @ todo))"
proof (induction todo arbitrary: "done")
  case Nil
  then show ?case by simp
next
  case (Cons item todo)
  obtain name ds where item: "item = (name, ds)" by (cases item)
  from Cons.prems item have ds: "kind_of ds \<noteq> RankOther" "nrows ds = n"
    by (auto simp: supported_ranks_def table_rows_def)
  from Cons.prems(3) item have fresh: "name \<notin> fst ` set (filtered_table P e done)"
    by (metis distinct_append distinct.simps(2) list.set_map filtered_table_names
        map_append list.simps(9) fst_conv disjoint_insert(1) list.simps(15) Int_commute
        insert_disjoint(1))
  have "write_columns chunk s e (Mask1 (map P [s..<e])) (item # todo)
      (filtered_table P e done @ filtered_table P s (item # todo)) =
    write_columns chunk s e (Mask1 (map P [s..<e])) todo
      (filtered_table P e (done @ [item]) @ filtered_table P s todo)"
    using later_column[OF assms ds fresh, of P todo "filtered_table P s todo"] item
    by (simp add: filtered_table_def)
  also have "\<dots> = (None, filtered_table P e ((done @ [item]) @ todo))"
    using Cons.prems by (intro Cons.IH) (simp_all add: supported_ranks_def table_rows_def)
  finally show ?case by simp
qed

lemma first_columns_ok:
  assumes "e \<le> n"
  shows "supported_ranks todo \<Longrightarrow> table_rows n todo \<Longrightarrow> creatable (map fst grp) todo \<Longrightarrow>
    write_columns 0 0 e (Mask1 (map P [0..<e])) todo grp =
      (None, grp @ filtered_table P e todo)"
proof (induction todo arbitrary: grp)
  case Nil
  then show ?case by simp
next
  case (Cons item todo)
  obtain name ds where item: "item = (name, ds)" by (cases item)
  from Cons.prems item have ds: "kind_of ds \<noteq> RankOther" "nrows ds = n"
    and fresh: "map_of grp name = None"
    and rest: "supported_ranks todo" "table_rows n todo" "creatable (map fst grp @ [name]) todo"
    by (auto simp: supported_ranks_def table_rows_def map_of_eq_None_iff)
  show ?case
  proof (cases ds)
    case (D1 xs)
    have data: "masked (slice 0 e xs) (Mask1 (map P [0..<e])) =
        Inr (map ((!) xs) (filter P [0..<e]))"
      using assms ds D1 by (intro masked_filter) simp_all
    have "write_columns 0 0 e (Mask1 (map P [0..<e])) (item # todo) grp =
        write_columns 0 0 e (Mask1 (map P [0..<e])) todo (grp @ [(name, filtered_column P e ds)])"
      using item D1 data fresh by (simp add: create_dataset_def fits_maxshape_def)
    also have "\<dots> = (None, (grp @ [(name, filtered_column P e ds)]) @ filtered_table P e todo)"
      using rest by (intro Cons.IH) simp_all
    finally show ?thesis using item by (simp add: filtered_table_def)
  next
    case (D2 d rows)
    from Cons.prems(3) item D2 have d: "d \<le> 2" by simp
    have data: "masked (slice 0 e rows) (Mask1 (map P [0..<e])) =
        Inr (map ((!) rows) (filter P [0..<e]))"
      using assms ds D2 by (intro masked_filter) simp_all
    have "write_columns 0 0 e (Mask1 (map P [0..<e])) (item # todo) grp =
        write_columns 0 0 e (Mask1 (map P [0..<e])) todo (grp @ [(name, filtered_column P e ds)])"
      using item D2 data fresh d by (simp add: create_dataset_def fits_maxshape_def)
    also have "\<dots> = (None, (grp @ [(name, filtered_column P e ds)]) @ filtered_table P e todo)"
      using rest by (intro Cons.IH) simp_all
    finally show ?thesis using item by (simp add: filtered_table_def)
  next
    case (DN shp cells)
    with ds show ?thesis by simp
  qed
qed

lemma first_columns_fail:
  "supported_ranks todo \<Longrightarrow> \<not> creatable (map fst grp) todo \<Longrightarrow>
    \<exists>err. fst (write_columns 0 s e m todo grp) = Some err"
proof (induction todo arbitrary: grp)
  case Nil
  then show ?case by simp
next
  case (Cons item todo)
  obtain name ds where item: "item = (name, ds)" by (cases item)
  from Cons.prems(1) item have ds: "kind_of ds \<noteq> RankOther" and sup: "supported_ranks todo"
    by (auto simp: supported_ranks_def)
  have step: "\<exists>err. fst (write_columns 0 s e m todo (grp @ [(name, data)])) = Some err"
    if "name \<notin> set (map fst grp)" "case ds of D2 d rows \<Rightarrow> d \<le> 2 | _ \<Rightarrow> True" for data
  proof -
    from that Cons.prems(2) item have "\<not> creatable (map fst (grp @ [(name, data)])) todo"
      by simp
    from Cons.IH[OF sup this] show ?thesis .
  qed
  show ?case
  proof (cases ds)
    case (D1 xs)
    show ?thesis
    proof (cases "masked (slice s e xs) m")
      case (Inl err)
      with item D1 show ?thesis by simp
    next
      case (Inr data)
      show ?thesis
      proof (cases "map_of grp name")
        case None
        then have "name \<notin> set (map fst grp)" by (simp add: map_of_eq_None_iff)
        from step[OF this, of "D1 data"] D1 item Inr None show ?thesis
          by (simp add: create_dataset_def fits_maxshape_def)
      next
        case (Some old)
        with item D1 Inr show ?thesis by (simp add: create_dataset_def fits_maxshape_def)
      qed
    qed
  next
    case (D2 d rows)
    show ?thesis
    proof (cases "masked (slice s e rows) m")
      case (Inl err)
      with item D2 show ?thesis by simp
    next
      case (Inr data)
      show ?thesis
      proof (cases "d \<le> 2 \<and> map_of grp name = None")
        case True
        then have "name \<notin> set (map fst grp)" by (simp add: map_of_eq_None_iff)
        from step[OF this, of "D2 d data"] D2 item Inr True show ?thesis
          by (simp add: create_dataset_def fits_maxshape_def)
      next
        case False
        with item D2 Inr show ?thesis
          by (auto simp: create_dataset_def fits_maxshape_def split: option.splits)
      qed
    qed
  next
    case (DN shp cells)
    with ds show ?thesis by simp
  qed
qed

lemma creatable_fresh:
  "creatable names table \<Longrightarrow> x \<in> set names \<Longrightarrow> x \<notin> fst ` set table"
proof (induction table arbitrary: names)
  case Nil
  then show ?case by simp
next
  case (Cons item table)
  obtain name ds where item: "item = (name, ds)" by (cases item)
  from Cons.prems item have "creatable (names @ [name]) table" "x \<noteq> name" by auto
  with Cons.IH[of "names @ [name]"] Cons.prems(2) item show ?case by simp
qed

lemma creatable_distinct:
  "creatable names table \<Longrightarrow> distinct (map fst table)"
proof (induction table arbitrary: names)
  case Nil
  then show ?case by simp
next
  case (Cons item table)
  obtain name ds where item: "item = (name, ds)" by (cases item)
  from Cons.prems item have c: "creatable (names @ [name]) table" by simp
  from Cons.IH[OF c] creatable_fresh[OF c, of name] item show ?case by simp
qed

subsection \<open>Chunk arithmetic\<close>

lemma chunk_start_in_table:
  assumes "0 < c" "k < (n + c - 1) div c"
  shows "k * c < (n :: nat)"
proof -
  from assms have "Suc k \<le> (n + c - 1) div c" by simp
  with assms(1) have "Suc k * c \<le> n + c - 1" by (simp add: less_eq_div_iff_mult_less_eq)
  with assms(1) show ?thesis by simp
qed

lemma chunks_cover_table:
  assumes "0 < c"
  shows "(n :: nat) \<le> ((n + c - 1) div c) * c"
proof -
  have "(n + c - 1) div c < Suc ((n + c - 1) div c)" by simp
  with assms have "n + c - 1 < Suc ((n + c - 1) div c) * c"
    by (simp only: div_less_iff_less_mult)
  with assms show ?thesis by simp
qed

subsection \<open>The copy of a table of supported ranks\<close>

lemma passing_iff:
  "(\<forall>g \<in> set (selection_groups cfg). criterion_true table g i) = passing table cfg i"
  by (simp add: passing_def list_all_iff)

lemma chunk_mask:
  assumes "\<forall>g \<in> set (selection_groups cfg). well_formed_criterion table n g"
    "s \<le> e" "e \<le> n" "0 < e"
  shows "create_mask_h5py table cfg n (Some s) (Some e) =
    Inr (Mask1 (map (passing table cfg) [s..<e]))"
  using create_mask_h5py_ok[OF assms] by (simp add: passing_iff)

lemma later_chunks:
  assumes "0 < c"
    and "\<forall>g \<in> set (selection_groups cfg). well_formed_criterion table n g"
    and "supported_ranks table" "table_rows n table" "distinct (map fst table)"
    and "nc = (n + c - 1) div c"
  shows "0 < k \<Longrightarrow> k \<le> nc \<Longrightarrow>
    chunk_loop table cfg n c [k..<nc] (filtered_table (passing table cfg) (min n (k * c)) table) =
      (None, filtered_table (passing table cfg) n table)"
proof (induction "nc - k" arbitrary: k)
  case 0
  then have "k = nc" by simp
  moreover have "min n (nc * c) = n"
    using chunks_cover_table[OF assms(1), of n] assms(6) by simp
  ultimately show ?case by simp
next
  case (Suc d)
  let ?P = "passing table cfg"
  let ?s = "k * c" and ?e = "min n ((k + 1) * c)"
  from Suc.hyps(2) have k: "k < nc" by simp
  then have upt: "[k..<nc] = k # [Suc k..<nc]" by (simp add: upt_conv_Cons)
  have s: "?s < n" using chunk_start_in_table[OF assms(1)] k assms(6) by simp
  then have se: "?s \<le> ?e" "?e \<le> n" "0 < ?e" using assms(1) by simp_all
  have m: "create_mask_h5py table cfg n (Some ?s) (Some ?e) = Inr (Mask1 (map ?P [?s..<?e]))"
    by (rule chunk_mask[OF assms(2) se])
  have "min n ?s = ?s" using s by simp
  moreover have "write_columns k ?s ?e (Mask1 (map ?P [?s..<?e])) table
      (filtered_table ?P ?e [] @ filtered_table ?P ?s table) =
      (None, filtered_table ?P ?e ([] @ table))"
    using Suc.prems(1) assms(3,4,5) by (intro later_columns[OF _ se(1,2)]) simp_all
  ultimately have w: "write_columns k ?s ?e (Mask1 (map ?P [?s..<?e])) table
      (filtered_table ?P (min n ?s) table) = (None, filtered_table ?P ?e table)"
    by simp
  have "chunk_loop table cfg n c [Suc k..<nc] (filtered_table ?P (min n (Suc k * c)) table) =
      (None, filtered_table ?P n table)"
    using Suc.hyps(2) k by (intro Suc.hyps(1)) simp_all
  then show ?case
    unfolding upt using m w by (simp add: Let_def)
qed

text \<open>
  On a table with rows whose columns have rank 1 or 2 and can be created, and with
  well-formed criteria, the copy returns the table of the passing rows, whatever the
  chunk size.
\<close>

lemma copy_is_filtered_table:
  assumes "0 < n" "0 < c"
    and "\<forall>g \<in> set (selection_groups cfg). well_formed_criterion table n g"
    and "supported_ranks table" "table_rows n table" "creatable [] table"
  shows "apply_cuts_h5py_chunked table n cfg c =
    (None, Some (filtered_table (passing table cfg) n table))"
proof -
  let ?P = "passing table cfg" and ?e = "min n c"
  have m: "create_mask_h5py table cfg n (Some 0) (Some ?e) = Inr (Mask1 (map ?P [0..<?e]))"
    using assms(1,2) by (intro chunk_mask[OF assms(3)]) simp_all
  have w: "write_columns 0 0 ?e (Mask1 (map ?P [0..<?e])) table [] =
      (None, filtered_table ?P ?e table)"
    using first_columns_ok[of ?e n table "[]" ?P] assms(4,5,6) by simp
  have "0 < (n + c - 1) div c" using assms(1,2) by (simp add: div_greater_zero_iff)
  then have "chunk_loop table cfg n c [1..<(n + c - 1) div c]
      (filtered_table ?P (min n (1 * c)) table) = (None, filtered_table ?P n table)"
    using assms creatable_distinct[OF assms(6)]
    by (intro later_chunks[where c = c]) simp_all
  then show ?thesis
    unfolding first_chunk[OF assms(1,2)] using m w by simp
qed

lemma copy_fails_not_creatable:
  assumes "0 < n" "0 < c" "supported_ranks table" "\<not> creatable [] table"
  shows "\<exists>err. fst (apply_cuts_h5py_chunked table n cfg c) = Some err"
proof (cases "create_mask_h5py table cfg n (Some 0) (Some (min n c))")
  case (Inl err)
  then show ?thesis by (simp add: first_chunk[OF assms(1,2)])
next
  case (Inr m)
  from first_columns_fail[of table "[]" 0 "min n c" m] assms(3,4)
  obtain err where "fst (write_columns 0 0 (min n c) m table []) = Some err" by auto
  then show ?thesis
    using Inr by (auto simp: first_chunk[OF assms(1,2)] split: prod.splits option.splits)
qed

text \<open>
  A criterion on a column of another rank than 1 turns the mask into an array of rank 2
  or more, if it does not fail; the mask keeps that rank to the end of the loop, and
  the first chunk cannot read a column of rank 1 or 2 with it.
\<close>

lemma logical_and_masks_nd:
  "logical_and_masks a b = Inr m \<Longrightarrow>
    (\<exists>shp cells. a = MaskN shp cells) \<or> (\<exists>shp cells. b = MaskN shp cells) \<Longrightarrow>
    \<exists>shp cells. m = MaskN shp cells"
  by (cases a; cases b) (auto split: option.splits)

lemma compare_slice_nd:
  "compare_slice f ds s e v = Inr sel \<Longrightarrow> kind_of ds \<noteq> Rank1 \<Longrightarrow>
    \<exists>shp cells. sel = MaskN shp cells"
  by (cases "(f, ds, s, e, v)" rule: compare_slice.cases) auto

lemma mask_loop_h5py_nd:
  "mask_loop_h5py table s e cs (MaskN shp cells) = Inr m \<Longrightarrow> \<exists>shp' cells'. m = MaskN shp' cells'"
proof (induction cs arbitrary: shp cells)
  case Nil
  then show ?case by auto
next
  case (Cons c cs)
  from Cons.prems obtain sel m' where
    "logical_and_masks (MaskN shp cells) sel = Inr m'"
    "mask_loop_h5py table s e cs m' = Inr m"
    by (auto simp del: logical_and_masks.simps
        split: if_splits list.splits option.splits sum.splits)
  with logical_and_masks_nd[of "MaskN shp cells" sel m'] Cons.IH show ?case by blast
qed

lemma mask_loop_bad_criterion:
  assumes "\<not> well_formed_criterion table n g" "table_rows n table"
  shows "(\<exists>err. mask_loop_h5py table s e (g # post) m = Inl err) \<or>
    (\<exists>shp cells. mask_loop_h5py table s e (g # post) m = Inr (MaskN shp cells) \<and> table \<noteq> [])"
proof (cases g)
  case Nil
  then show ?thesis by simp
next
  case (Cons entry more)
  obtain name operator v where entry: "entry = (name, operator, v)" by (cases entry)
  show ?thesis
  proof (cases more)
    case (Cons x xs)
    with \<open>g = entry # more\<close> show ?thesis by simp
  next
    case Nil
    with \<open>g = entry # more\<close> entry have g: "g = [(name, operator, v)]" by simp
    show ?thesis
    proof (cases "map_of OPERATORS operator")
      case None
      with g show ?thesis by simp
    next
      case (Some f)
      show ?thesis
      proof (cases "map_of table name")
        case None
        with g Some show ?thesis by simp
      next
        case col: (Some ds)
        then have mem: "(name, ds) \<in> set table" by (rule map_of_SomeD)
        with assms(2) have rows: "kind_of ds = RankOther \<or> nrows ds = n"
          by (auto simp: table_rows_def list_all_iff)
        from assms(1) g Some col rows have nd: "kind_of ds \<noteq> Rank1"
          by (cases ds) auto
        from mem have ne: "table \<noteq> []" by auto
        show ?thesis
        proof (cases "mask_loop_h5py table s e (g # post) m")
          case (Inl err)
          then show ?thesis by blast
        next
          case (Inr res)
          with g Some col obtain sel m' where
            sel: "compare_slice f ds s e v = Inr sel"
            and m': "logical_and_masks m sel = Inr m'"
            and rest: "mask_loop_h5py table s e post m' = Inr res"
            by (auto simp del: logical_and_masks.simps compare_slice.simps split: sum.splits)
          from compare_slice_nd[OF sel nd] logical_and_masks_nd[OF m']
          obtain shp cells where "m' = MaskN shp cells" by blast
          with rest mask_loop_h5py_nd obtain shp' cells' where "res = MaskN shp' cells'"
            by blast
          with Inr ne show ?thesis by blast
        qed
      qed
    qed
  qed
qed

lemma first_columns_nd_fail:
  assumes "supported_ranks table" "table \<noteq> []"
  shows "\<exists>err. fst (write_columns 0 s e (MaskN shp cells) table grp) = Some err"
proof -
  from assms(2) obtain name ds rest where table: "table = (name, ds) # rest"
    by (cases table) auto
  with assms(1) have "kind_of ds \<noteq> RankOther" by (simp add: supported_ranks_def)
  then show ?thesis unfolding table by (cases ds) simp_all
qed

lemma copy_fails_bad_criterion:
  assumes "0 < n" "0 < c" "table_rows n table" "supported_ranks table"
    and "\<not> (\<forall>g \<in> set (selection_groups cfg). well_formed_criterion table n g)"
  shows "\<exists>err. fst (apply_cuts_h5py_chunked table n cfg c) = Some err"
proof -
  from assms(5) obtain pre g post where split: "selection_groups cfg = pre @ g # post"
    and pre: "\<forall>g' \<in> set pre. well_formed_criterion table n g'"
    and g: "\<not> well_formed_criterion table n g"
    using split_list_first_prop[of "selection_groups cfg" "\<lambda>g. \<not> well_formed_criterion table n g"]
    by auto
  from create_mask_h5py_prefix[OF split pre, of 0 "min n c"] assms(1,2)
  obtain m where m: "create_mask_h5py table cfg n (Some 0) (Some (min n c)) =
      mask_loop_h5py table 0 (min n c) (g # post) m" by auto
  from mask_loop_bad_criterion[OF g assms(3), of 0 "min n c" post m]
  show ?thesis
  proof
    assume "\<exists>err. mask_loop_h5py table 0 (min n c) (g # post) m = Inl err"
    with m show ?thesis by (auto simp: first_chunk[OF assms(1,2)])
  next
    assume "\<exists>shp cells. mask_loop_h5py table 0 (min n c) (g # post) m = Inr (MaskN shp cells) \<and>
        table \<noteq> []"
    then obtain shp cells where nd: "create_mask_h5py table cfg n (Some 0) (Some (min n c)) =
        Inr (MaskN shp cells)" and ne: "table \<noteq> []"
      using m by auto
    from first_columns_nd_fail[OF assms(4) ne, of 0 "min n c" shp cells "[]"]
    obtain err where "fst (write_columns 0 0 (min n c) (MaskN shp cells) table []) = Some err" ..
    then show ?thesis
      using nd by (auto simp: first_chunk[OF assms(1,2)] split: prod.splits option.splits)
  qed
qed

lemma copy_of_empty_table:
  "0 < c \<Longrightarrow> apply_cuts_h5py_chunked table 0 cfg c = (None, Some [])"
  by (simp add: apply_cuts_h5py_chunked_def)

text \<open>
  Chunk-size invariance on tables whose columns all have rank 1 or 2: two chunk sizes
  make the copy fail both or return both, and then with the same output.
\<close>

theorem chunksize_invariance_supported_ranks:
  assumes "0 < c1" and "0 < c2" and "supported_ranks table" and "table_rows n table"
  shows "(fst (apply_cuts_h5py_chunked table n cfg c1) = None \<longleftrightarrow>
          fst (apply_cuts_h5py_chunked table n cfg c2) = None) \<and>
         (fst (apply_cuts_h5py_chunked table n cfg c1) = None \<longrightarrow>
          apply_cuts_h5py_chunked table n cfg c1 = apply_cuts_h5py_chunked table n cfg c2)"
proof (cases "n = 0")
  case True
  with assms(1,2) show ?thesis by (simp add: copy_of_empty_table)
next
  case False
  then have n: "0 < n" by simp
  show ?thesis
  proof (cases "(\<forall>g \<in> set (selection_groups cfg). well_formed_criterion table n g) \<and>
      creatable [] table")
    case True
    with copy_is_filtered_table[OF n assms(1) _ assms(3,4)]
      copy_is_filtered_table[OF n assms(2) _ assms(3,4)]
    show ?thesis by simp
  next
    case False
    have "\<exists>err. fst (apply_cuts_h5py_chunked table n cfg c) = Some err" if "0 < c" for c
      using False copy_fails_bad_criterion[OF n that assms(4,3)]
        copy_fails_not_creatable[OF n that assms(3)]
      by blast
    from this[OF assms(1)] this[OF assms(2)] show ?thesis by auto
  qed
qed

theorem chunksize_invariance_supported_ranks_example:
  "apply_cuts_h5py_chunked [(''x'', D1 [1, 2, 3 :: int]), (''y'', D1 [5, 15, 25])] 3
      (SelList [[(''x'', ''>'', 1)]]) 1 =
   apply_cuts_h5py_chunked [(''x'', D1 [1, 2, 3 :: int]), (''y'', D1 [5, 15, 25])] 3
      (SelList [[(''x'', ''>'', 1)]]) 10 \<and>
   apply_cuts_h5py_chunked [(''x'', D1 [1, 2, 3 :: int]), (''y'', D1 [5, 15, 25])] 3
      (SelList [[(''x'', ''>'', 1)]]) 10 = (None, Some [(''x'', D1 [2, 3]), (''y'', D1 [15, 25])])"
proof -
  let ?t = "[(''x'', D1 [1, 2, 3 :: int]), (''y'', D1 [5, 15, 25])]"
  let ?cfg = "SelList [[(''x'', ''>'', 1 :: int)]]"
  have r: "apply_cuts_h5py_chunked ?t 3 ?cfg 10 = (None, Some [(''x'', D1 [2, 3]), (''y'', D1 [15, 25])])"
    by code_simp
  have "supported_ranks ?t" "table_rows 3 ?t"
    by (simp_all add: supported_ranks_def table_rows_def)
  from chunksize_invariance_supported_ranks[OF _ _ this, of 10 1 ?cfg] r
  show ?thesis by simp
qed

section \<open>Properties of the cascade filter\<close>

subsection \<open>First phase: the survivor keys\<close>

lemma row_get_Inr [simp]: "row_get row name = Inr v \<longleftrightarrow> map_of row name = Some v"
  by (simp add: row_get_def split: option.splits)

lemma parameter_rows_remaining:
  "parameter_rows zs (nt, S, nb, na) = Inr (nt', S', nb', na') \<Longrightarrow>
    S' = S \<union> {k. \<exists>(row, match) \<in> set zs. match \<and> row_key row = Some k}"
proof (induction zs arbitrary: nt S nb na)
  case Nil
  then show ?case by simp
next
  case (Cons z zs)
  obtain row match where z: "z = (row, match)" by (cases z)
  show ?case
  proof (cases match)
    case False
    with Cons.prems z have "parameter_rows zs (nt, S, nb + 1, na) = Inr (nt', S', nb', na')"
      by simp
    from Cons.IH[OF this] show ?thesis using z False by auto
  next
    case True
    with Cons.prems z obtain a b where ab: "map_of row ''obs_id'' = Some a"
      "map_of row ''event_id'' = Some b"
      and rest: "parameter_rows zs (nt\<lparr>t_rows := t_rows nt @ [row]\<rparr>, insert (a, b) S,
          nb + 1, na + 1) = Inr (nt', S', nb', na')"
      by (auto split: sum.splits)
    have "row_key row = Some (a, b)" using ab by (simp add: row_key_def)
    with Cons.IH[OF rest] show ?thesis using z True by auto
  qed
qed

lemma create_mask_table_whole:
  assumes "create_mask_table table cfg (length (t_rows table)) None None = Inr m"
  shows "m = map (passes_selection table cfg) [0..<length (t_rows table)]"
proof -
  let ?n = "length (t_rows table)"
  from assms have "mask_loop_table table 0 ?n (selection_groups cfg) (replicate ?n True) = Inr m"
    by (simp add: create_mask_table_def mask_start_def mask_end_def Let_def)
  from mask_loop_table_result[OF this]
  have m: "m = map2 (\<and>) (replicate ?n True)
      (map (\<lambda>i. \<forall>c \<in> set (selection_groups cfg). criterion_true_table table c i) [0..<?n])"
    by simp
  show ?thesis
    unfolding m by (rule nth_equalityI) (simp_all add: passes_selection_def list_all_iff)
qed

lemma in_set_zip_upt:
  "(x, b) \<in> set (zip xs (map f [0..<length xs])) \<longleftrightarrow> (\<exists>i < length xs. x = xs ! i \<and> b = f i)"
proof
  assume "(x, b) \<in> set (zip xs (map f [0..<length xs]))"
  then obtain i where "i < length xs" "x = xs ! i" "b = map f [0..<length xs] ! i"
    by (auto simp: set_zip)
  then show "\<exists>i < length xs. x = xs ! i \<and> b = f i" by auto
next
  assume "\<exists>i < length xs. x = xs ! i \<and> b = f i"
  then obtain i where "i < length xs" "x = xs ! i" "b = f i" by blast
  then have "(x, b) = zip xs (map f [0..<length xs]) ! i" "i < length (zip xs (map f [0..<length xs]))"
    by simp_all
  then show "(x, b) \<in> set (zip xs (map f [0..<length xs]))" by (metis nth_mem)
qed

lemma passing_keys_iff:
  "k \<in> set (passing_keys table cfg) \<longleftrightarrow>
    (\<exists>i < length (t_rows table). passes_selection table cfg i \<and> row_key (t_rows table ! i) = Some k)"
proof -
  define g where "g = (\<lambda>i. if passes_selection table cfg i
      then (case row_key (t_rows table ! i) of Some k \<Rightarrow> [k] | None \<Rightarrow> []) else [])"
  have g: "k \<in> set (g i) \<longleftrightarrow> passes_selection table cfg i \<and> row_key (t_rows table ! i) = Some k"
    for i
  proof (cases "passes_selection table cfg i")
    case False
    then have "g i = []" by (simp add: g_def)
    with False show ?thesis by simp
  next
    case True
    show ?thesis
    proof (cases "row_key (t_rows table ! i)")
      case None
      with True have "g i = []" by (simp add: g_def)
      with None show ?thesis by simp
    next
      case (Some k')
      with True have "g i = [k']" by (simp add: g_def)
      with True Some show ?thesis by auto
    qed
  qed
  have "passing_keys table cfg = concat (map g [0..<length (t_rows table)])"
    by (simp add: passing_keys_def g_def)
  then have "k \<in> set (passing_keys table cfg) \<longleftrightarrow> (\<exists>i < length (t_rows table). k \<in> set (g i))"
    by auto
  then show ?thesis by (simp add: g)
qed

lemma passing_keys_zip:
  "{k. \<exists>(row, match) \<in> set (zip (t_rows table)
          (map (passes_selection table cfg) [0..<length (t_rows table)])).
        match \<and> row_key row = Some k}
    = set (passing_keys table cfg)"
  (is "?L = ?R")
proof (rule set_eqI)
  fix k
  have "k \<in> ?L \<longleftrightarrow> (\<exists>row match. (row, match) \<in> set (zip (t_rows table)
          (map (passes_selection table cfg) [0..<length (t_rows table)])) \<and>
        match \<and> row_key row = Some k)"
    by auto
  also have "\<dots> \<longleftrightarrow> (\<exists>i < length (t_rows table).
      passes_selection table cfg i \<and> row_key (t_rows table ! i) = Some k)"
    unfolding in_set_zip_upt by blast
  also have "\<dots> \<longleftrightarrow> k \<in> ?R"
    by (rule passing_keys_iff[symmetric])
  finally show "k \<in> ?L \<longleftrightarrow> k \<in> ?R" .
qed

lemma parameter_loop_remaining:
  "parameter_loop ts cfg (out, S, nb, na) = Inr (out', S', nb', na') \<Longrightarrow>
    S' = S \<union> set (concat (map (\<lambda>t. passing_keys t cfg) ts))"
proof (induction ts arbitrary: out S nb na)
  case Nil
  then show ?case by simp
next
  case (Cons t ts)
  from Cons.prems obtain nt m nt1 S1 nb1 na1 where
    m: "create_mask_table t cfg (length (t_rows t)) None None = Inr m"
    and rows: "parameter_rows (zip (t_rows t) m) (nt, S, nb, na) = Inr (nt1, S1, nb1, na1)"
    and rest: "parameter_loop ts cfg (out @ [nt1], S1, nb1, na1) = Inr (out', S', nb', na')"
    by (auto split: sum.splits)
  have "S1 = S \<union> set (passing_keys t cfg)"
    using parameter_rows_remaining[OF rows] create_mask_table_whole[OF m]
    by (simp add: passing_keys_zip)
  with Cons.IH[OF rest] show ?case by auto
qed

subsection \<open>Second phase: the dependent tables\<close>

lemma dependent_rows_result:
  "dependent_rows names S rows = Inr kept \<Longrightarrow>
    (''event_id'' \<in> set names \<longrightarrow>
       kept = filter (key_survives S) rows \<and> (\<forall>row \<in> set rows. map_of row ''obs_id'' \<noteq> None)) \<and>
    (''event_id'' \<notin> set names \<longrightarrow> kept = rows)"
proof (induction rows arbitrary: kept)
  case Nil
  then show ?case by simp
next
  case (Cons row rows)
  show ?case
  proof (cases "''event_id'' \<in> set names")
    case False
    with Cons.prems obtain kept' where "dependent_rows names S rows = Inr kept'"
      "kept = row # kept'" by (auto split: sum.splits)
    with Cons.IH[of kept'] False show ?thesis by simp
  next
    case True
    with Cons.prems obtain a b where ab: "map_of row ''obs_id'' = Some a"
      "map_of row ''event_id'' = Some b"
      by (auto split: sum.splits)
    then have key: "key_survives S row \<longleftrightarrow> (a, b) \<in> S"
      by (simp add: key_survives_def row_key_def)
    show ?thesis
    proof (cases "(a, b) \<in> S")
      case False
      with Cons.prems True ab have "dependent_rows names S rows = Inr kept"
        by (simp add: row_get_def)
      with Cons.IH[of kept] True False key ab show ?thesis by simp
    next
      case in_S: True
      with Cons.prems True ab obtain kept' where "dependent_rows names S rows = Inr kept'"
        "kept = row # kept'" by (auto simp: row_get_def split: sum.splits)
      with Cons.IH[of kept'] True in_S key ab show ?thesis by simp
    qed
  qed
qed

lemma dependent_rows_no_obs_id:
  "''event_id'' \<in> set names \<Longrightarrow> map_of row ''obs_id'' = None \<Longrightarrow>
    dependent_rows names S (row # rows) = Inl (NoSuchField ''obs_id'')"
  by (simp add: row_get_def)

lemma dependent_rows_no_event_id:
  "''event_id'' \<notin> set names \<Longrightarrow> dependent_rows names S rows = Inr rows"
  by (induction rows) simp_all

lemma find_append_first:
  "find P xs = Some x \<Longrightarrow> find P (xs @ ys) = Some x"
  by (induction xs) (auto split: if_splits)

lemma find_append_None:
  "find P xs = None \<Longrightarrow> find P (xs @ ys) = find P ys"
  by (induction xs) (auto split: if_splits)

lemma dependent_loop_extends:
  "dependent_loop nodes S out = Inr out2 \<Longrightarrow> \<exists>more. out2 = out @ more"
proof (induction nodes arbitrary: out)
  case Nil
  then show ?case by simp
next
  case (Cons node nodes)
  show ?case
  proof (cases node)
    case (GroupNode p)
    with Cons show ?thesis by simp
  next
    case (TableNode t)
    show ?thesis
    proof (cases "t_parent t = parameters_key")
      case True
      with Cons TableNode show ?thesis by simp
    next
      case False
      with Cons.prems TableNode obtain new where
        "dependent_loop nodes S (out @ [new]) = Inr out2"
        by (auto split: sum.splits)
      from Cons.IH[OF this] show ?thesis by auto
    qed
  qed
qed

lemma dependent_loop_table:
  assumes "dependent_loop nodes S out = Inr out2" "TableNode t \<in> set nodes"
    "t_parent t \<noteq> parameters_key"
  shows "\<exists>kept. dependent_rows (colnames t) S (t_rows t) = Inr kept \<and>
    find (\<lambda>u. t_parent u = t_parent t \<and> t_name u = t_name t) out2 =
      Some \<lparr>t_name = t_name t, t_parent = t_parent t, colnames = colnames t, t_rows = kept\<rparr>"
  using assms(1,2)
proof (induction nodes arbitrary: out)
  case Nil
  then show ?case by simp
next
  case (Cons node nodes)
  show ?case
  proof (cases "TableNode t \<in> set nodes")
    case True
    show ?thesis
    proof (cases node)
      case (GroupNode p)
      with Cons.prems Cons.IH[OF _ True] show ?thesis by simp
    next
      case (TableNode t0)
      show ?thesis
      proof (cases "t_parent t0 = parameters_key")
        case par: True
        with Cons.prems TableNode Cons.IH[OF _ True] show ?thesis by simp
      next
        case False
        with Cons.prems TableNode obtain new where
          "dependent_loop nodes S (out @ [new]) = Inr out2"
          by (auto split: sum.splits)
        from Cons.IH[OF this True] show ?thesis .
      qed
    qed
  next
    case False
    with Cons.prems have node: "node = TableNode t" by simp
    let ?P = "\<lambda>u. t_parent u = t_parent t \<and> t_name u = t_name t"
    from Cons.prems(1) node assms(3) obtain kept where
      fresh: "\<not> list_ex ?P out"
      and kept: "dependent_rows (colnames t) S (t_rows t) = Inr kept"
      and rest: "dependent_loop nodes S
          (out @ [\<lparr>t_name = t_name t, t_parent = t_parent t, colnames = colnames t,
                   t_rows = kept\<rparr>]) = Inr out2"
      by (auto simp: create_table_def split: sum.splits if_splits)
    let ?new = "\<lparr>t_name = t_name t, t_parent = t_parent t, colnames = colnames t, t_rows = kept\<rparr>"
    from fresh have "find ?P out = None" by (auto simp: find_None_iff list_ex_iff)
    then have "find ?P (out @ [?new]) = Some ?new" by (simp add: find_append_None)
    moreover from dependent_loop_extends[OF rest] obtain more where
      "out2 = (out @ [?new]) @ more" ..
    ultimately have "find ?P out2 = Some ?new" by (simp only: find_append_first)
    with kept show ?thesis by blast
  qed
qed

lemma apply_cuts_cta_dl1_result:
  assumes "apply_cuts_cta_dl1 in_nodes out_tables cfg = Inr (out, n_before, n_after)"
  shows "\<exists>out1. dependent_loop in_nodes (survivor_keys in_nodes cfg) out1 = Inr out"
proof -
  from assms obtain out1 S nb na where
    p1: "parameter_loop (parameter_tables in_nodes) cfg (out_tables, {}, 0, 0) = Inr (out1, S, nb, na)"
    and p2: "dependent_loop in_nodes S out1 = Inr out"
    by (auto simp: apply_cuts_cta_dl1_def split: if_splits sum.splits)
  from parameter_loop_remaining[OF p1] have "S = survivor_keys in_nodes cfg"
    by (simp add: survivor_keys_def)
  with p2 show ?thesis by blast
qed

lemma table_ok_field:
  assumes "table_ok t" "row \<in> set (t_rows t)"
  shows "map_of row name \<noteq> None \<longleftrightarrow> name \<in> set (colnames t)"
proof -
  from assms have "map fst row = colnames t" by (simp add: table_ok_def list_all_iff)
  then have "fst ` set row = set (colnames t)" by (metis list.set_map)
  then show ?thesis by (simp add: map_of_eq_None_iff)
qed

subsection \<open>The cascade returns on a ready file\<close>

lemma parameter_tables_filter:
  "parameter_tables in_nodes = filter (\<lambda>t. t_parent t = parameters_key) (input_tables in_nodes)"
  unfolding parameter_tables_def input_tables_def
  by (induction in_nodes) (auto split: node.splits)

lemma table_ok_key:
  assumes "table_ok t" "has_key_columns t" "row \<in> set (t_rows t)"
  shows "\<exists>a b. map_of row ''obs_id'' = Some a \<and> map_of row ''event_id'' = Some b"
  using table_ok_field[OF assms(1,3), of "''obs_id''"]
    table_ok_field[OF assms(1,3), of "''event_id''"] assms(2)
  by (auto simp: has_key_columns_def)

lemma parameter_rows_returns:
  "\<forall>(row, match) \<in> set zs. \<exists>a b. map_of row ''obs_id'' = Some a \<and> map_of row ''event_id'' = Some b \<Longrightarrow>
    \<exists>nt' S' nb' na'. parameter_rows zs (nt, S, nb, na) = Inr (nt', S', nb', na') \<and>
      t_name nt' = t_name nt \<and> t_parent nt' = t_parent nt"
proof (induction zs arbitrary: nt S nb na)
  case Nil
  then show ?case by simp
next
  case (Cons z zs)
  obtain row match where z: "z = (row, match)" by (cases z)
  from Cons.prems z obtain a b where ab: "map_of row ''obs_id'' = Some a"
    "map_of row ''event_id'' = Some b" by auto
  from Cons.prems have rest: "\<forall>(row, match) \<in> set zs.
      \<exists>a b. map_of row ''obs_id'' = Some a \<and> map_of row ''event_id'' = Some b" by simp
  show ?case
  proof (cases match)
    case True
    from Cons.IH[OF rest, of "nt\<lparr>t_rows := t_rows nt @ [row]\<rparr>" "insert (a, b) S" "nb + 1" "na + 1"]
    show ?thesis using z True ab by (simp add: row_get_def)
  next
    case False
    from Cons.IH[OF rest, of nt S "nb + 1" na] show ?thesis using z False by simp
  qed
qed

lemma create_mask_table_returns:
  assumes "table_ok t" "\<forall>c \<in> set (selection_groups cfg). well_formed_criterion_table t c"
  shows "\<exists>m. create_mask_table t cfg (length (t_rows t)) None None = Inr m"
  using mask_loop_table_ok[OF assms(2,1), of 0 "length (t_rows t)"
      "replicate (length (t_rows t)) True"]
  by (simp add: create_mask_table_def mask_start_def mask_end_def Let_def)

lemma create_table_fresh:
  "(path, name) \<notin> set (path_names out) \<Longrightarrow>
    create_table out path name description =
      Inr \<lparr>t_name = name, t_parent = path, colnames = description, t_rows = []\<rparr>"
  by (auto simp: create_table_def path_names_def list_ex_iff)

lemma parameter_loop_returns:
  assumes "\<forall>t \<in> set ts. t_parent t = parameters_key \<and> table_ok t \<and> has_key_columns t \<and>
      (\<forall>c \<in> set (selection_groups cfg). well_formed_criterion_table t c)"
    and "distinct (path_names out @ path_names ts)"
  shows "\<exists>out' S' nb' na'. parameter_loop ts cfg (out, S, nb, na) = Inr (out', S', nb', na') \<and>
      path_names out' = path_names out @ path_names ts"
  using assms
proof (induction ts arbitrary: out S nb na)
  case Nil
  then show ?case by (simp add: path_names_def)
next
  case (Cons t ts)
  from Cons.prems(1) have t: "t_parent t = parameters_key" "table_ok t" "has_key_columns t"
    "\<forall>c \<in> set (selection_groups cfg). well_formed_criterion_table t c" by simp_all
  from Cons.prems(2) t(1) have "(parameters_key, t_name t) \<notin> set (path_names out)"
    by (auto simp: path_names_def)
  then have ct: "create_table out parameters_key (t_name t) (colnames t) =
      Inr \<lparr>t_name = t_name t, t_parent = parameters_key, colnames = colnames t, t_rows = []\<rparr>"
    by (rule create_table_fresh)
  let ?new = "\<lparr>t_name = t_name t, t_parent = parameters_key, colnames = colnames t, t_rows = []\<rparr>"
  from create_mask_table_returns[OF t(2,4)] obtain m where
    m: "create_mask_table t cfg (length (t_rows t)) None None = Inr m" ..
  have "\<forall>(row, match) \<in> set (zip (t_rows t) m).
      \<exists>a b. map_of row ''obs_id'' = Some a \<and> map_of row ''event_id'' = Some b"
    using table_ok_key[OF t(2,3)] by (auto dest: set_zip_leftD)
  from parameter_rows_returns[OF this, of ?new S nb na] obtain nt' S1 nb1 na1 where
    rows: "parameter_rows (zip (t_rows t) m) (?new, S, nb, na) = Inr (nt', S1, nb1, na1)"
    and nt': "t_name nt' = t_name t" "t_parent nt' = parameters_key"
    by auto
  have pn: "path_names (out @ [nt']) = path_names out @ [(t_parent t, t_name t)]"
    using nt' t(1) by (simp add: path_names_def)
  have "distinct (path_names (out @ [nt']) @ path_names ts)"
    using Cons.prems(2) pn by (simp add: path_names_def)
  from Cons.IH[OF _ this, of S1 nb1 na1] Cons.prems(1) obtain out' S' nb' na' where
    "parameter_loop ts cfg (out @ [nt'], S1, nb1, na1) = Inr (out', S', nb', na')"
    "path_names out' = path_names (out @ [nt']) @ path_names ts"
    by auto
  then show ?case
    using ct m rows pn by (simp add: path_names_def)
qed

lemma dependent_rows_returns:
  "''event_id'' \<in> set names \<longrightarrow>
      (\<forall>row \<in> set rows. \<exists>a b. map_of row ''obs_id'' = Some a \<and> map_of row ''event_id'' = Some b) \<Longrightarrow>
    \<exists>kept. dependent_rows names S rows = Inr kept"
proof (induction rows)
  case Nil
  then show ?case by simp
next
  case (Cons row rows)
  then obtain kept where kept: "dependent_rows names S rows = Inr kept" by auto
  show ?case
  proof (cases "''event_id'' \<in> set names")
    case True
    with Cons.prems obtain a b where "map_of row ''obs_id'' = Some a"
      "map_of row ''event_id'' = Some b" by auto
    with True kept show ?thesis by (simp add: row_get_def)
  next
    case False
    with kept show ?thesis by simp
  qed
qed

lemma dependent_loop_returns:
  assumes "\<forall>t \<in> set (dependent_tables nodes). table_ok t \<and>
      (has_key_columns t \<or> ''event_id'' \<notin> set (colnames t))"
    and "distinct (path_names out @ path_names (dependent_tables nodes))"
  shows "\<exists>out2. dependent_loop nodes S out = Inr out2"
  using assms
proof (induction nodes arbitrary: out)
  case Nil
  then show ?case by simp
next
  case (Cons node nodes)
  show ?case
  proof (cases node)
    case (GroupNode p)
    with Cons.prems Cons.IH[of out] show ?thesis
      by (simp add: dependent_tables_def input_tables_def)
  next
    case (TableNode t)
    show ?thesis
    proof (cases "t_parent t = parameters_key")
      case True
      with TableNode Cons.prems Cons.IH[of out] show ?thesis
        by (simp add: dependent_tables_def input_tables_def)
    next
      case False
      with TableNode have dt: "dependent_tables (node # nodes) = t # dependent_tables nodes"
        by (simp add: dependent_tables_def input_tables_def)
      with Cons.prems have t: "table_ok t" "has_key_columns t \<or> ''event_id'' \<notin> set (colnames t)"
        and fresh: "(t_parent t, t_name t) \<notin> set (path_names out)"
        by (auto simp: path_names_def)
      have "''event_id'' \<in> set (colnames t) \<longrightarrow>
          (\<forall>row \<in> set (t_rows t). \<exists>a b. map_of row ''obs_id'' = Some a \<and> map_of row ''event_id'' = Some b)"
        using t table_ok_key[OF t(1)] by blast
      from dependent_rows_returns[OF this] obtain kept where
        kept: "dependent_rows (colnames t) S (t_rows t) = Inr kept" ..
      let ?new = "\<lparr>t_name = t_name t, t_parent = t_parent t, colnames = colnames t, t_rows = kept\<rparr>"
      have "distinct (path_names (out @ [?new]) @ path_names (dependent_tables nodes))"
        using Cons.prems(2) dt by (simp add: path_names_def)
      from Cons.IH[OF _ this] Cons.prems(1) dt obtain out2 where
        "dependent_loop nodes S (out @ [?new]) = Inr out2" by auto
      then show ?thesis
        using TableNode False kept create_table_fresh[OF fresh] by simp
    qed
  qed
qed

lemma cascade_returns:
  assumes "cascade_ready in_nodes cfg"
  shows "\<exists>out nb na. apply_cuts_cta_dl1 in_nodes [] cfg = Inr (out, nb, na)"
proof -
  let ?all = "input_tables in_nodes"
  from assms have grp: "GroupNode parameters_key \<in> set in_nodes"
    and dist: "distinct (path_names ?all)"
    and ok: "\<forall>t \<in> set ?all. table_ok t"
    and par: "\<forall>t \<in> set (parameter_tables in_nodes). has_key_columns t \<and>
        (\<forall>c \<in> set (selection_groups cfg). well_formed_criterion_table t c)"
    and dep: "\<forall>t \<in> set (dependent_tables in_nodes).
        has_key_columns t \<or> ''event_id'' \<notin> set (colnames t)"
    by (simp_all add: cascade_ready_def list_all_iff)
  have dp: "distinct (path_names (parameter_tables in_nodes))"
    "distinct (path_names (dependent_tables in_nodes))"
    using dist unfolding parameter_tables_filter dependent_tables_def path_names_def
    by (simp_all add: distinct_map_filter)
  have "\<forall>t \<in> set (parameter_tables in_nodes). t_parent t = parameters_key \<and> table_ok t \<and>
      has_key_columns t \<and> (\<forall>c \<in> set (selection_groups cfg). well_formed_criterion_table t c)"
    using par ok by (auto simp: parameter_tables_filter)
  from parameter_loop_returns[OF this, of "[]" "{}" 0 0] dp(1) obtain out1 S nb na where
    p1: "parameter_loop (parameter_tables in_nodes) cfg ([], {}, 0, 0) = Inr (out1, S, nb, na)"
    and pn: "path_names out1 = path_names (parameter_tables in_nodes)"
    by (auto simp: path_names_def)
  have "set (path_names out1) \<inter> set (path_names (dependent_tables in_nodes)) = {}"
    unfolding pn by (auto simp: parameter_tables_filter dependent_tables_def path_names_def)
  with dp(2) dp(1) pn have "distinct (path_names out1 @ path_names (dependent_tables in_nodes))"
    by simp
  moreover have "\<forall>t \<in> set (dependent_tables in_nodes). table_ok t \<and>
      (has_key_columns t \<or> ''event_id'' \<notin> set (colnames t))"
    using dep ok by (auto simp: dependent_tables_def)
  ultimately obtain out2 where "dependent_loop in_nodes S out1 = Inr out2"
    using dependent_loop_returns by blast
  with p1 grp show ?thesis by (simp add: apply_cuts_cta_dl1_def)
qed

text \<open>
  C3, as the code has it. A file that is ready for the cascade is filtered into a fresh
  output file without error. Whenever the cascade returns, the output holds, at the path
  of every dependent table of the input, a table with the same description; if the table
  has both key columns, its rows are the rows of the input whose key is a survivor key,
  in their order; if it has no column \<^verbatim>\<open>event_id\<close>, its rows are the rows of the input.
\<close>

theorem cascade_filters_dependent_tables:
  "(cascade_ready in_nodes cfg \<longrightarrow>
      (\<exists>out nb na. apply_cuts_cta_dl1 in_nodes [] cfg = Inr (out, nb, na))) \<and>
   (apply_cuts_cta_dl1 in_nodes out_tables cfg = Inr (out, n_before, n_after) \<and>
    TableNode t \<in> set in_nodes \<and> t_parent t \<noteq> parameters_key \<longrightarrow>
      (\<exists>t'. find (\<lambda>u. t_parent u = t_parent t \<and> t_name u = t_name t) out = Some t' \<and>
         colnames t' = colnames t \<and>
         (has_key_columns t \<longrightarrow>
            t_rows t' = filter (key_survives (survivor_keys in_nodes cfg)) (t_rows t)) \<and>
         (''event_id'' \<notin> set (colnames t) \<longrightarrow> t_rows t' = t_rows t)))"
proof (intro conjI impI)
  assume "cascade_ready in_nodes cfg"
  then show "\<exists>out nb na. apply_cuts_cta_dl1 in_nodes [] cfg = Inr (out, nb, na)"
    by (rule cascade_returns)
next
  let ?S = "survivor_keys in_nodes cfg"
  assume "apply_cuts_cta_dl1 in_nodes out_tables cfg = Inr (out, n_before, n_after) \<and>
    TableNode t \<in> set in_nodes \<and> t_parent t \<noteq> parameters_key"
  then have run: "apply_cuts_cta_dl1 in_nodes out_tables cfg = Inr (out, n_before, n_after)"
    and t: "TableNode t \<in> set in_nodes" "t_parent t \<noteq> parameters_key"
    by simp_all
  from apply_cuts_cta_dl1_result[OF run] obtain out1 where
    "dependent_loop in_nodes ?S out1 = Inr out" ..
  from dependent_loop_table[OF this t] obtain kept where
    kept: "dependent_rows (colnames t) ?S (t_rows t) = Inr kept"
    and found: "find (\<lambda>u. t_parent u = t_parent t \<and> t_name u = t_name t) out =
      Some \<lparr>t_name = t_name t, t_parent = t_parent t, colnames = colnames t, t_rows = kept\<rparr>"
    by blast
  note res = dependent_rows_result[OF kept]
  have "kept = filter (key_survives ?S) (t_rows t)" if "has_key_columns t"
    using that res by (simp add: has_key_columns_def)
  moreover have "kept = t_rows t" if "''event_id'' \<notin> set (colnames t)"
    using that res by simp
  ultimately show "\<exists>t'. find (\<lambda>u. t_parent u = t_parent t \<and> t_name u = t_name t) out = Some t' \<and>
      colnames t' = colnames t \<and>
      (has_key_columns t \<longrightarrow> t_rows t' = filter (key_survives ?S) (t_rows t)) \<and>
      (''event_id'' \<notin> set (colnames t) \<longrightarrow> t_rows t' = t_rows t)"
    using found by simp
qed

theorem cascade_filters_dependent_tables_witness:
  "cascade_ready
     [GroupNode parameters_key,
      TableNode \<lparr>t_name = ''tel_001'', t_parent = parameters_key,
        colnames = [''obs_id'', ''event_id'', ''width''],
        t_rows = [[(''obs_id'', 1 :: int), (''event_id'', 1), (''width'', 5)],
                  [(''obs_id'', 1), (''event_id'', 2), (''width'', 0)],
                  [(''obs_id'', 2), (''event_id'', 1), (''width'', 7)]]\<rparr>,
      TableNode \<lparr>t_name = ''images'', t_parent = ''/dl1/event/telescope'',
        colnames = [''obs_id'', ''event_id''],
        t_rows = [[(''obs_id'', 1), (''event_id'', 1)], [(''obs_id'', 1), (''event_id'', 2)],
                  [(''obs_id'', 2), (''event_id'', 1)], [(''obs_id'', 2), (''event_id'', 2)]]\<rparr>,
      TableNode \<lparr>t_name = ''site'', t_parent = ''/configuration'',
        colnames = [''altitude''], t_rows = [[(''altitude'', 2200)], [(''altitude'', 2300)]]\<rparr>]
     (SelList [[(''width'', ''>'', 1)]]) \<and>
   apply_cuts_cta_dl1
     [GroupNode parameters_key,
      TableNode \<lparr>t_name = ''tel_001'', t_parent = parameters_key,
        colnames = [''obs_id'', ''event_id'', ''width''],
        t_rows = [[(''obs_id'', 1 :: int), (''event_id'', 1), (''width'', 5)],
                  [(''obs_id'', 1), (''event_id'', 2), (''width'', 0)],
                  [(''obs_id'', 2), (''event_id'', 1), (''width'', 7)]]\<rparr>,
      TableNode \<lparr>t_name = ''images'', t_parent = ''/dl1/event/telescope'',
        colnames = [''obs_id'', ''event_id''],
        t_rows = [[(''obs_id'', 1), (''event_id'', 1)], [(''obs_id'', 1), (''event_id'', 2)],
                  [(''obs_id'', 2), (''event_id'', 1)], [(''obs_id'', 2), (''event_id'', 2)]]\<rparr>,
      TableNode \<lparr>t_name = ''site'', t_parent = ''/configuration'',
        colnames = [''altitude''], t_rows = [[(''altitude'', 2200)], [(''altitude'', 2300)]]\<rparr>]
     [] (SelList [[(''width'', ''>'', 1)]])
   = Inr ([\<lparr>t_name = ''tel_001'', t_parent = parameters_key,
            colnames = [''obs_id'', ''event_id'', ''width''],
            t_rows = [[(''obs_id'', 1), (''event_id'', 1), (''width'', 5)],
                      [(''obs_id'', 2), (''event_id'', 1), (''width'', 7)]]\<rparr>,
           \<lparr>t_name = ''images'', t_parent = ''/dl1/event/telescope'',
            colnames = [''obs_id'', ''event_id''],
            t_rows = [[(''obs_id'', 1), (''event_id'', 1)], [(''obs_id'', 2), (''event_id'', 1)]]\<rparr>,
           \<lparr>t_name = ''site'', t_parent = ''/configuration'',
            colnames = [''altitude''], t_rows = [[(''altitude'', 2200)], [(''altitude'', 2300)]]\<rparr>],
          3, 2) \<and>
   filter (key_survives {(1, 1), (2, 1 :: int)})
     [[(''obs_id'', 1), (''event_id'', 1)], [(''obs_id'', 1), (''event_id'', 2)],
      [(''obs_id'', 2), (''event_id'', 1)], [(''obs_id'', 2), (''event_id'', 2)]]
   = [[(''obs_id'', 1), (''event_id'', 1)], [(''obs_id'', 2), (''event_id'', 1)]]"
proof -
  let ?tel = "\<lparr>t_name = ''tel_001'', t_parent = parameters_key,
        colnames = [''obs_id'', ''event_id'', ''width''],
        t_rows = [[(''obs_id'', 1 :: int), (''event_id'', 1), (''width'', 5)],
                  [(''obs_id'', 1), (''event_id'', 2), (''width'', 0)],
                  [(''obs_id'', 2), (''event_id'', 1), (''width'', 7)]]\<rparr>"
  let ?images = "\<lparr>t_name = ''images'', t_parent = ''/dl1/event/telescope'',
        colnames = [''obs_id'', ''event_id''],
        t_rows = [[(''obs_id'', 1 :: int), (''event_id'', 1)], [(''obs_id'', 1), (''event_id'', 2)],
                  [(''obs_id'', 2), (''event_id'', 1)], [(''obs_id'', 2), (''event_id'', 2)]]\<rparr>"
  let ?site = "\<lparr>t_name = ''site'', t_parent = ''/configuration'',
        colnames = [''altitude''], t_rows = [[(''altitude'', 2200 :: int)], [(''altitude'', 2300)]]\<rparr>"
  let ?in = "[GroupNode parameters_key, TableNode ?tel, TableNode ?images, TableNode ?site]"
  let ?cfg = "SelList [[(''width'', ''>'', 1 :: int)]]"
  have ready: "cascade_ready ?in ?cfg"
    by (simp add: cascade_ready_def input_tables_def parameter_tables_def dependent_tables_def
        path_names_def parameters_key_def table_ok_def has_key_columns_def OPERATORS_def)
  from cascade_filters_dependent_tables[of ?in ?cfg] ready
  obtain out nb na where run: "apply_cuts_cta_dl1 ?in [] ?cfg = Inr (out, nb, na)" by blast
  have keys: "survivor_keys ?in ?cfg = {(1, 1), (2, 1)}"
    by code_simp
  from cascade_filters_dependent_tables[of ?in ?cfg "[]" out nb na ?images] run
  obtain t1 where t1: "find (\<lambda>u. t_parent u = t_parent ?images \<and> t_name u = t_name ?images) out = Some t1"
    "t_rows t1 = filter (key_survives (survivor_keys ?in ?cfg)) (t_rows ?images)"
    by (auto simp: parameters_key_def has_key_columns_def)
  from cascade_filters_dependent_tables[of ?in ?cfg "[]" out nb na ?site] run
  obtain t2 where t2: "find (\<lambda>u. t_parent u = t_parent ?site \<and> t_name u = t_name ?site) out = Some t2"
    "t_rows t2 = t_rows ?site"
    by (auto simp: parameters_key_def)
  have result: "apply_cuts_cta_dl1 ?in [] ?cfg = Inr
     ([\<lparr>t_name = ''tel_001'', t_parent = parameters_key,
            colnames = [''obs_id'', ''event_id'', ''width''],
            t_rows = [[(''obs_id'', 1), (''event_id'', 1), (''width'', 5)],
                      [(''obs_id'', 2), (''event_id'', 1), (''width'', 7)]]\<rparr>,
           \<lparr>t_name = ''images'', t_parent = ''/dl1/event/telescope'',
            colnames = [''obs_id'', ''event_id''],
            t_rows = [[(''obs_id'', 1), (''event_id'', 1)], [(''obs_id'', 2), (''event_id'', 1)]]\<rparr>,
           \<lparr>t_name = ''site'', t_parent = ''/configuration'',
            colnames = [''altitude''], t_rows = [[(''altitude'', 2200)], [(''altitude'', 2300)]]\<rparr>],
          3, 2)"
    by code_simp
  with run t1 have "filter (key_survives {(1, 1), (2, 1 :: int)}) (t_rows ?images) =
      [[(''obs_id'', 1), (''event_id'', 1)], [(''obs_id'', 2), (''event_id'', 1)]]"
    unfolding keys by (auto simp: parameters_key_def key_survives_def row_key_def)
  with ready result show ?thesis by simp
qed

theorem table_without_obs_id_counterexample:
  "\<not> has_key_columns \<lparr>t_name = ''trigger'', t_parent = ''/dl1/event/subarray'',
        colnames = [''event_id'', ''time''],
        t_rows = [[(''event_id'', 1 :: int), (''time'', 10)], [(''event_id'', 2), (''time'', 20)]]\<rparr> \<and>
   apply_cuts_cta_dl1
     [GroupNode parameters_key,
      TableNode \<lparr>t_name = ''tel_001'', t_parent = parameters_key,
        colnames = [''obs_id'', ''event_id'', ''width''],
        t_rows = [[(''obs_id'', 1 :: int), (''event_id'', 1), (''width'', 5)]]\<rparr>,
      TableNode \<lparr>t_name = ''trigger'', t_parent = ''/dl1/event/subarray'',
        colnames = [''event_id'', ''time''],
        t_rows = [[(''event_id'', 1), (''time'', 10)], [(''event_id'', 2), (''time'', 20)]]\<rparr>]
     [] (SelList [[(''width'', ''>'', 1)]])
   = Inl (NoSuchField ''obs_id'')"
  by (simp add: has_key_columns_def) code_simp

text \<open>
  C9. Whether the second phase filters a table is decided by the column \<^verbatim>\<open>event_id\<close>
  alone: without it every row is copied, whatever the other columns. With it, \<^verbatim>\<open>obs_id\<close>
  is read of every row: a dependent table with a column \<^verbatim>\<open>event_id\<close>, no column
  \<^verbatim>\<open>obs_id\<close> and at least one row makes its row loop end with the KeyError of
  \<^verbatim>\<open>obs_id\<close>, and the cascade fail.
\<close>

theorem event_id_without_obs_id_fails:
  assumes "TableNode t \<in> set in_nodes" and "t_parent t \<noteq> parameters_key"
    and "''event_id'' \<in> set (colnames t)" and "''obs_id'' \<notin> set (colnames t)"
    and "table_ok t" and "t_rows t \<noteq> []"
  shows "dependent_rows (colnames t) remaining_showers (t_rows t) = Inl (NoSuchField ''obs_id'') \<and>
    (\<exists>err. apply_cuts_cta_dl1 in_nodes out_tables cfg = Inl err) \<and>
    (''event_id'' \<notin> set names \<longrightarrow> dependent_rows names remaining_showers rows = Inr rows)"
proof -
  from assms(6) obtain row rest where rows: "t_rows t = row # rest" by (cases "t_rows t") auto
  with table_ok_field[OF assms(5), of row "''obs_id''"] assms(4)
  have none: "map_of row ''obs_id'' = None" by auto
  have fails: "dependent_rows (colnames t) S (t_rows t) = Inl (NoSuchField ''obs_id'')" for S
    unfolding rows by (rule dependent_rows_no_obs_id[OF assms(3) none])
  have "\<exists>err. apply_cuts_cta_dl1 in_nodes out_tables cfg = Inl err"
  proof (cases "apply_cuts_cta_dl1 in_nodes out_tables cfg")
    case (Inl err)
    then show ?thesis by blast
  next
    case (Inr res)
    obtain out nb na where "res = (out, nb, na)" by (cases res)
    with Inr apply_cuts_cta_dl1_result obtain out1 where
      "dependent_loop in_nodes (survivor_keys in_nodes cfg) out1 = Inr out" by blast
    from dependent_loop_table[OF this assms(1,2)] fails show ?thesis by auto
  qed
  with fails dependent_rows_no_event_id show ?thesis by blast
qed

theorem event_id_without_obs_id_fails_witness:
  "apply_cuts_cta_dl1
     [GroupNode parameters_key,
      TableNode \<lparr>t_name = ''trigger'', t_parent = ''/dl1/event/subarray'',
        colnames = [''event_id'', ''time''],
        t_rows = [[(''event_id'', 1 :: int), (''time'', 10)]]\<rparr>]
     [] (SelList [])
   = Inl (NoSuchField ''obs_id'') \<and>
   dependent_rows [''obs_id'', ''time''] {} [[(''obs_id'', 1 :: int), (''time'', 10)]]
   = Inr [[(''obs_id'', 1), (''time'', 10)]]"
proof -
  let ?t = "\<lparr>t_name = ''trigger'', t_parent = ''/dl1/event/subarray'',
        colnames = [''event_id'', ''time''],
        t_rows = [[(''event_id'', 1 :: int), (''time'', 10)]]\<rparr>"
  let ?in = "[GroupNode parameters_key, TableNode ?t]"
  have h: "TableNode ?t \<in> set ?in" "t_parent ?t \<noteq> parameters_key"
    "''event_id'' \<in> set (colnames ?t)" "''obs_id'' \<notin> set (colnames ?t)"
    "table_ok ?t" "t_rows ?t \<noteq> []"
    by (simp_all add: parameters_key_def table_ok_def)
  from event_id_without_obs_id_fails[OF h, of "{}" "[]" "SelList []" "[''obs_id'', ''time'']"
      "[[(''obs_id'', 1 :: int), (''time'', 10)]]"]
  have rows: "dependent_rows (colnames ?t) {} (t_rows ?t) = Inl (NoSuchField ''obs_id'')"
    and "\<exists>err. apply_cuts_cta_dl1 ?in [] (SelList []) = Inl err"
    and copied: "dependent_rows [''obs_id'', ''time''] {} [[(''obs_id'', 1 :: int), (''time'', 10)]]
      = Inr [[(''obs_id'', 1), (''time'', 10)]]"
    by simp_all
  then obtain err where err: "apply_cuts_cta_dl1 ?in [] (SelList []) = Inl err" by blast
  have "apply_cuts_cta_dl1 ?in [] (SelList []) = Inl (NoSuchField ''obs_id'')"
    using rows err
    by (simp add: apply_cuts_cta_dl1_def parameter_tables_def parameters_key_def
        create_table_def)
  with copied show ?thesis by simp
qed

end
